theory Spec2Isabelle
  imports Main "HOL-Library.Sublist"
begin

section \<open>Strings\<close>

text \<open>
  JavaScript strings are modelled as \<open>string\<close> (lists of characters). The string
  methods the service relies on are given for ASCII text, which is what account handles,
  keywords and the host names scanned for are made of: \<open>toLowerCase\<close> maps
  \<open>A\<close>..\<open>Z\<close> to \<open>a\<close>..\<open>z\<close>, \<open>trim\<close> strips
  the ASCII white space (codes 9 to 13 and 32) from both ends.
\<close>

definition char_toLowerCase :: "char \<Rightarrow> char" where
  "char_toLowerCase c =
     (let n = (of_char c :: nat) in if 65 \<le> n \<and> n \<le> 90 then char_of (n + 32) else c)"

definition toLowerCase :: "string \<Rightarrow> string" where
  "toLowerCase s = map char_toLowerCase s"

definition isWhiteSpace :: "char \<Rightarrow> bool" where
  "isWhiteSpace c = (let n = (of_char c :: nat) in (9 \<le> n \<and> n \<le> 13) \<or> n = 32)"

definition trim :: "string \<Rightarrow> string" where
  "trim s = rev (dropWhile isWhiteSpace (rev (dropWhile isWhiteSpace s)))"

text \<open>\<open>haystack.includes(needle)\<close>: the needle occurs as a contiguous run.\<close>

definition String_includes :: "string \<Rightarrow> string \<Rightarrow> bool" where
  "String_includes haystack needle = sublist needle haystack"

text \<open>\<open>parts.join(sep)\<close>.\<close>

fun join :: "string \<Rightarrow> string list \<Rightarrow> string" where
  "join sep [] = []"
| "join sep [x] = x"
| "join sep (x # y # ys) = x @ sep @ join sep (y # ys)"

section \<open>Data model (models.ts)\<close>

type_synonym objectId = nat

text \<open>A \<open>Date\<close> is its number of milliseconds since the epoch.\<close>

type_synonym date = int

record TwitterCredentials =
  apiKey :: string
  apiSecret :: string
  accessToken :: string
  accessTokenSecret :: string

record IUser =
  u_id :: objectId
  u_email :: string
  u_password :: string
  u_isActive :: bool
  u_twitterUsername :: "string option"
  u_twitterCredentials :: "TwitterCredentials option"
  u_createdAt :: date
  u_updatedAt :: date

text \<open>
  \<open>createdAt\<close> and \<open>updatedAt\<close> are the stamps of the schemas'
  \<open>timestamps\<close> option: undefined on a document that was never saved, written by
  Mongoose on every save and update.
\<close>

record ISubscription =
  s_id :: objectId
  s_userId :: objectId
  s_targetUsername :: string
  s_isActive :: bool
  s_checkInterval :: int
  s_lastChecked :: date
  s_keywords :: "string list"
  s_includeReplies :: bool
  s_includeRetweets :: bool
  s_createdAt :: "date option"
  s_updatedAt :: "date option"

record Engagement =
  likes :: nat
  retweets :: nat
  replies :: nat
  quotes :: nat

text \<open>A post's own \<open>_id\<close> is read by no operation below and is left out.\<close>

record IPost =
  p_tweetId :: string
  p_subscriptionId :: objectId
  p_userId :: objectId
  p_content :: string
  p_authorUsername :: string
  p_authorName :: "string option"
  p_authorAvatar :: "string option"
  p_engagement :: Engagement
  p_mediaUrls :: "string list"
  p_isRead :: bool
  p_tweetCreatedAt :: date
  p_tweetUrl :: "string option"
  p_isReply :: bool
  p_isRetweet :: bool
  p_retweetedFrom :: "string option"
  p_hashtags :: "string list"
  p_mentions :: "string list"
  p_createdAt :: "date option"
  p_updatedAt :: "date option"

subsection \<open>The public JSON of a user\<close>

datatype json =
    JString string
  | JBool bool
  | JNumber int
  | JDate date
  | JId objectId
  | JObject "(string \<times> json) list"

text \<open>A plain object is its list of own properties; \<open>delete obj.k\<close> removes the key.\<close>

definition delete_key :: "string \<Rightarrow> (string \<times> json) list \<Rightarrow> (string \<times> json) list" where
  "delete_key k obj = filter (\<lambda>kv. fst kv \<noteq> k) obj"

definition credentials_toObject :: "TwitterCredentials \<Rightarrow> json" where
  "credentials_toObject c = JObject
     [(''apiKey'', JString (apiKey c)), (''apiSecret'', JString (apiSecret c)),
      (''accessToken'', JString (accessToken c)),
      (''accessTokenSecret'', JString (accessTokenSecret c))]"

text \<open>
  The plain object Mongoose hands to the \<open>toJSON\<close> transform: every path of
  \<open>UserSchema\<close> that is set, and the two timestamps (the version key is left out).
\<close>

definition User_toObject :: "IUser \<Rightarrow> (string \<times> json) list" where
  "User_toObject u =
     [(''_id'', JId (u_id u)), (''email'', JString (u_email u)),
      (''password'', JString (u_password u)), (''isActive'', JBool (u_isActive u))]
     @ (case u_twitterUsername u of None \<Rightarrow> [] | Some n \<Rightarrow> [(''twitterUsername'', JString n)])
     @ (case u_twitterCredentials u of None \<Rightarrow> []
        | Some c \<Rightarrow> [(''twitterCredentials'', credentials_toObject c)])
     @ [(''createdAt'', JDate (u_createdAt u)), (''updatedAt'', JDate (u_updatedAt u))]"

text \<open>The transform of \<open>UserSchema\<close>'s \<open>toJSON\<close> option.\<close>

definition User_transform :: "(string \<times> json) list \<Rightarrow> (string \<times> json) list" where
  "User_transform ret =
     (let retObj = ret;
          retObj = delete_key ''password'' retObj;
          retObj = delete_key ''twitterCredentials'' retObj
      in retObj)"

definition User_toJSON :: "IUser \<Rightarrow> (string \<times> json) list" where
  "User_toJSON u = User_transform (User_toObject u)"

section \<open>The store and its surroundings\<close>

text \<open>
  Every value thrown in this code base is a JavaScript \<open>Error\<close>: a message and,
  for the errors of the Twitter client (HTTP status, 429 for rate limiting) and of the
  MongoDB driver (11000 for a violated unique index), a numeric \<open>code\<close>.
\<close>

datatype error = Error (err_code: "nat option") (err_message: string)

text \<open>
  The state the operations work on: the three collections, the wall clock read by
  \<open>new Date()\<close> and \<open>Date.now()\<close>, and the generator of fresh
  \<open>ObjectId\<close>s. The handlers are asynchronous and may overlap with one another
  and with the scheduled sweep; \<open>concurrent\<close> lists, for the successive windows
  between an existence check and the insert that follows it, the post rows other writers
  commit in that window. With \<open>concurrent = []\<close> the run is sequential.
\<close>

record world =
  users :: "IUser list"
  subscriptions :: "ISubscription list"
  posts :: "IPost list"
  clock :: date
  nextId :: objectId
  concurrent :: "IPost list list"

subsection \<open>Post collection\<close>

text \<open>\<open>Post.findOne({ tweetId })\<close>.\<close>

definition Post_findOne_tweetId :: "string \<Rightarrow> world \<Rightarrow> IPost option" where
  "Post_findOne_tweetId tid w = find (\<lambda>p. p_tweetId p = tid) (posts w)"

text \<open>
  The validators of \<open>PostSchema\<close> that a reconciled post can fail: \<open>tweetId\<close>,
  \<open>content\<close> and \<open>authorUsername\<close> are required (an empty string does not
  count), \<open>content\<close> has \<open>maxlength: 5000\<close>.
\<close>

definition Post_validate :: "IPost \<Rightarrow> bool" where
  "Post_validate p \<longleftrightarrow>
     p_tweetId p \<noteq> [] \<and> p_content p \<noteq> [] \<and> length (p_content p) \<le> 5000 \<and>
     p_authorUsername p \<noteq> []"

definition ValidationError :: "string \<Rightarrow> error" where
  "ValidationError model = Error None (model @ '' validation failed'')"

definition DuplicateKey :: error where
  "DuplicateKey = Error (Some 11000) ''E11000 duplicate key error''"

text \<open>
  \<open>post.save()\<close> of a new document: validation, then the insert, which the unique
  index on \<open>tweetId\<close> rejects when a row with that identifier exists.
\<close>

definition Post_save :: "IPost \<Rightarrow> world \<Rightarrow> error + world" where
  "Post_save p w =
     (if \<not> Post_validate p then Inl (ValidationError ''Post'')
      else if p_tweetId p \<in> p_tweetId ` set (posts w) then Inl DuplicateKey
      else Inr (w\<lparr>posts := posts w @
                  [p\<lparr>p_createdAt := Some (clock w), p_updatedAt := Some (clock w)\<rparr>]\<rparr>))"

text \<open>An insert by another writer; the unique index holds for it too.\<close>

definition commit_concurrent :: "IPost list \<Rightarrow> IPost \<Rightarrow> IPost list" where
  "commit_concurrent ps p = (if p_tweetId p \<in> p_tweetId ` set ps then ps else ps @ [p])"

definition concurrent_window :: "world \<Rightarrow> world" where
  "concurrent_window w =
     (case concurrent w of
        [] \<Rightarrow> w
      | rows # rest \<Rightarrow> w\<lparr>posts := foldl commit_concurrent (posts w) rows, concurrent := rest\<rparr>)"

subsection \<open>Subscription collection\<close>

fun update_first :: "('a \<Rightarrow> bool) \<Rightarrow> ('a \<Rightarrow> 'a) \<Rightarrow> 'a list \<Rightarrow> 'a list" where
  "update_first P f [] = []"
| "update_first P f (x # xs) = (if P x then f x # xs else x # update_first P f xs)"

text \<open>
  \<open>findOneAndUpdate(filter, update, { new: true })\<close> and
  \<open>findByIdAndUpdate\<close>: the first row matching the filter is updated in place and
  stamped; the updated row is returned, or nothing when no row matches.
\<close>

definition Subscription_findOneAndUpdate ::
  "(ISubscription \<Rightarrow> bool) \<Rightarrow> (ISubscription \<Rightarrow> ISubscription) \<Rightarrow> world \<Rightarrow>
     ISubscription option \<times> world" where
  "Subscription_findOneAndUpdate flt upd w =
     (let stamped = (\<lambda>s. (upd s)\<lparr>s_updatedAt := Some (clock w)\<rparr>)
      in (map_option stamped (find flt (subscriptions w)),
          w\<lparr>subscriptions := update_first flt stamped (subscriptions w)\<rparr>))"

section \<open>The Twitter service (twitter-service.ts)\<close>

subsection \<open>What the Twitter client returns\<close>

record PublicMetrics =
  retweet_count :: nat
  like_count :: nat
  reply_count :: nat
  quote_count :: nat

record UrlEntity =
  expanded_url :: string
  display_url :: string

record HashtagEntity =
  tag :: string

record MentionEntity =
  username :: string

record Entities =
  urls :: "UrlEntity list option"
  hashtags :: "HashtagEntity list option"
  mentions :: "MentionEntity list option"

record ReferencedTweet =
  ref_type :: string
  ref_id :: string

record Attachments =
  media_keys :: "string list option"

text \<open>\<open>created_at\<close> is the instant the ISO string denotes.\<close>

record TweetData =
  t_id :: string
  t_text :: string
  t_author_id :: string
  t_created_at :: date
  t_public_metrics :: PublicMetrics
  t_attachments :: "Attachments option"
  t_entities :: "Entities option"
  t_referenced_tweets :: "ReferencedTweet list option"

record UserV2 =
  uv_id :: string
  uv_name :: string
  uv_username :: string
  uv_profile_image_url :: "string option"

record TimelineParams =
  max_results :: nat
  exclude :: "string list"
  tweet_fields :: string
  media_fields :: string
  expansions :: string
  start_time :: "date option"

text \<open>
  The collaborators outside the repository: the remote API behind
  \<open>client.v2.userByUsername\<close> and \<open>client.v2.userTimeline\<close> (a thrown error,
  or the \<open>data\<close> of the response, which may be undefined), and the regular
  expression engine behind \<open>new RegExp(pattern, 'i')\<close> (the message of the
  \<open>SyntaxError\<close> of a malformed pattern, or the \<open>test\<close> method of the
  expression), the AES decryption of a stored credential with the server's key
  (nothing when it throws), and the constructor behind \<open>new TwitterApi(tokens)\<close>
  (the error it throws, or nothing).
\<close>

record externals =
  userByUsername :: "string \<Rightarrow> error + UserV2 option"
  userTimeline :: "string \<Rightarrow> TimelineParams \<Rightarrow> error + TweetData list option"
  RegExp_i :: "string \<Rightarrow> string + (string \<Rightarrow> bool)"
  AES_decrypt :: "string \<Rightarrow> string option"
  TwitterApi :: "TwitterCredentials \<Rightarrow> error option"

subsection \<open>getUserByUsername\<close>

definition getUserByUsername :: "externals \<Rightarrow> string \<Rightarrow> error + UserV2 option" where
  "getUserByUsername ext uname =
     (case userByUsername ext uname of
        Inl e \<Rightarrow> Inl (Error None (''User @'' @ uname @ '' not found: '' @ err_message e))
      | Inr user_data \<Rightarrow> Inr user_data)"

subsection \<open>getUserTweets\<close>

record TweetOptions =
  o_sinceTime :: "date option"
  o_maxResults :: "nat option"
  o_includeReplies :: "bool option"
  o_includeRetweets :: "bool option"
  o_keywords :: "string list option"

text \<open>The object literal of the final \<open>map\<close>: a field-by-field copy.\<close>

definition toTweetData :: "TweetData \<Rightarrow> TweetData" where
  "toTweetData tweet =
     \<lparr>t_id = t_id tweet, t_text = t_text tweet, t_author_id = t_author_id tweet,
      t_created_at = t_created_at tweet, t_public_metrics = t_public_metrics tweet,
      t_attachments = t_attachments tweet, t_entities = t_entities tweet,
      t_referenced_tweets = t_referenced_tweets tweet\<rparr>"

text \<open>The \<open>catch\<close> block of \<open>getUserTweets\<close>.\<close>

definition getUserTweets_catch :: "error \<Rightarrow> error" where
  "getUserTweets_catch e =
     (if err_code e = Some 429 then Error None ''Rate limit exceeded. Please try again later.''
      else Error None (''Failed to fetch tweets: '' @ err_message e))"

text \<open>
  The request parameters, with the constants of twitter-service.ts (the compiled
  twitter-service.js of the repository has 2 for each of the page sizes 10, 100 and 50).
\<close>

definition timelineParams :: "TweetOptions \<Rightarrow> TimelineParams" where
  "timelineParams options =
     (let sinceTime = o_sinceTime options;
          maxResults = (case o_maxResults options of None \<Rightarrow> 10 | Some m \<Rightarrow> m);
          includeReplies = (case o_includeReplies options of None \<Rightarrow> False | Some b \<Rightarrow> b);
          includeRetweets = (case o_includeRetweets options of None \<Rightarrow> False | Some b \<Rightarrow> b);
          excludeTypes = (if \<not> includeReplies then [''replies''] else [])
                       @ (if \<not> includeRetweets then [''retweets''] else [])
      in \<lparr>max_results = min maxResults 100,
          exclude = excludeTypes,
          tweet_fields = join '','' [''created_at'', ''public_metrics'', ''attachments'',
                                    ''entities'', ''referenced_tweets''],
          media_fields = join '','' [''url'', ''preview_image_url''],
          expansions = join '','' [''attachments.media_keys'', ''author_id''],
          start_time = sinceTime\<rparr>)"

definition getUserTweets :: "externals \<Rightarrow> string \<Rightarrow> TweetOptions \<Rightarrow> error + TweetData list" where
  "getUserTweets ext userId options =
     (let keywords = (case o_keywords options of None \<Rightarrow> [] | Some ks \<Rightarrow> ks);
          params = timelineParams options
      in case userTimeline ext userId params of
           Inl e \<Rightarrow> Inl (getUserTweets_catch e)
         | Inr None \<Rightarrow> Inr []
         | Inr (Some data) \<Rightarrow>
             if length data = 0 then Inr []
             else if length keywords > 0 then
               (case RegExp_i ext (join ''|'' keywords) of
                  Inl syntaxError \<Rightarrow> Inl (getUserTweets_catch (Error None syntaxError))
                | Inr keywordRegex \<Rightarrow>
                    Inr (map toTweetData (filter (\<lambda>tweet. keywordRegex (t_text tweet)) data)))
             else Inr (map toTweetData data))"

subsection \<open>processSubscriptionTweets\<close>

definition extractMediaUrls :: "TweetData \<Rightarrow> string list" where
  "extractMediaUrls tweet =
     (case t_entities tweet of
        None \<Rightarrow> []
      | Some entities \<Rightarrow>
          (case urls entities of
             None \<Rightarrow> []
           | Some us \<Rightarrow>
               map expanded_url
                 (filter (\<lambda>url. String_includes (expanded_url url) ''pic.twitter.com'' \<or>
                                String_includes (expanded_url url) ''video.twitter.com'') us)))"

definition formatTweetUrl :: "string \<Rightarrow> string \<Rightarrow> string" where
  "formatTweetUrl uname tweetId = ''https://twitter.com/'' @ uname @ ''/status/'' @ tweetId"

text \<open>
  \<open>new Post({...})\<close> as the loop body builds it. The schema's setters lower-case and
  trim \<open>authorUsername\<close>; the stamps stay undefined until the save.
\<close>

definition new_Post :: "ISubscription \<Rightarrow> UserV2 \<Rightarrow> TweetData \<Rightarrow> IPost" where
  "new_Post subscription targetUser tweet =
     (let hashtags = (case t_entities tweet of None \<Rightarrow> []
                      | Some e \<Rightarrow> (case hashtags e of None \<Rightarrow> [] | Some hs \<Rightarrow> map tag hs));
          mentions = (case t_entities tweet of None \<Rightarrow> []
                      | Some e \<Rightarrow> (case mentions e of None \<Rightarrow> [] | Some ms \<Rightarrow> map username ms));
          mediaUrls = extractMediaUrls tweet;
          isReply = (case t_referenced_tweets tweet of None \<Rightarrow> False
                     | Some refs \<Rightarrow> list_ex (\<lambda>ref. ref_type ref = ''replied_to'') refs);
          isRetweet = (case t_referenced_tweets tweet of None \<Rightarrow> False
                       | Some refs \<Rightarrow> list_ex (\<lambda>ref. ref_type ref = ''retweeted'') refs);
          retweetedFrom =
            (if isRetweet
             then (case t_referenced_tweets tweet of None \<Rightarrow> None
                   | Some refs \<Rightarrow> map_option ref_id (find (\<lambda>ref. ref_type ref = ''retweeted'') refs))
             else None)
      in \<lparr>p_tweetId = t_id tweet,
          p_subscriptionId = s_id subscription,
          p_userId = s_userId subscription,
          p_content = t_text tweet,
          p_authorUsername = trim (toLowerCase (s_targetUsername subscription)),
          p_authorName = Some (uv_name targetUser),
          p_authorAvatar = uv_profile_image_url targetUser,
          p_engagement = \<lparr>likes = like_count (t_public_metrics tweet),
                           retweets = retweet_count (t_public_metrics tweet),
                           replies = reply_count (t_public_metrics tweet),
                           quotes = quote_count (t_public_metrics tweet)\<rparr>,
          p_mediaUrls = mediaUrls,
          p_isRead = False,
          p_tweetCreatedAt = t_created_at tweet,
          p_tweetUrl = Some (formatTweetUrl (s_targetUsername subscription) (t_id tweet)),
          p_isReply = isReply,
          p_isRetweet = isRetweet,
          p_retweetedFrom = retweetedFrom,
          p_hashtags = hashtags,
          p_mentions = mentions,
          p_createdAt = None,
          p_updatedAt = None\<rparr>)"

text \<open>
  The \<open>for\<close> loop over the fetched tweets, with the counter \<open>newTweetsCount\<close>.
  A throwing \<open>save\<close> leaves the loop with the store as it is at that moment.
\<close>

fun processSubscriptionTweets_loop ::
  "ISubscription \<Rightarrow> UserV2 \<Rightarrow> TweetData list \<Rightarrow> nat \<Rightarrow> world \<Rightarrow> (error + nat) \<times> world" where
  "processSubscriptionTweets_loop subscription targetUser [] newTweetsCount w =
     (Inr newTweetsCount, w)"
| "processSubscriptionTweets_loop subscription targetUser (tweet # tweets) newTweetsCount w =
     (case Post_findOne_tweetId (t_id tweet) w of
        Some existingPost \<Rightarrow>
          processSubscriptionTweets_loop subscription targetUser tweets newTweetsCount w
      | None \<Rightarrow>
          (let post = new_Post subscription targetUser tweet;
               w1 = concurrent_window w
           in case Post_save post w1 of
                Inl e \<Rightarrow> (Inl e, w1)
              | Inr w2 \<Rightarrow>
                  processSubscriptionTweets_loop subscription targetUser tweets
                    (newTweetsCount + 1) w2))"

definition subscriptionOptions :: "ISubscription \<Rightarrow> TweetOptions" where
  "subscriptionOptions subscription =
     \<lparr>o_sinceTime = Some (s_lastChecked subscription),
      o_maxResults = Some 50,
      o_includeReplies = Some (s_includeReplies subscription),
      o_includeRetweets = Some (s_includeRetweets subscription),
      o_keywords = Some (s_keywords subscription)\<rparr>"

definition processSubscriptionTweets ::
  "externals \<Rightarrow> ISubscription \<Rightarrow> world \<Rightarrow> (error + nat) \<times> world" where
  "processSubscriptionTweets ext subscription w =
     (case getUserByUsername ext (s_targetUsername subscription) of
        Inl e \<Rightarrow> (Inl e, w)
      | Inr None \<Rightarrow> (Inl (Error None ''Cannot read properties of undefined''), w)
      | Inr (Some targetUser) \<Rightarrow>
          (case getUserTweets ext (uv_id targetUser) (subscriptionOptions subscription) of
             Inl e \<Rightarrow> (Inl e, w)
           | Inr tweets \<Rightarrow>
               (case processSubscriptionTweets_loop subscription targetUser tweets 0 w of
                  (Inl e, w') \<Rightarrow> (Inl e, w')
                | (Inr newTweetsCount, w') \<Rightarrow>
                    (Inr newTweetsCount,
                     snd (Subscription_findOneAndUpdate (\<lambda>s. s_id s = s_id subscription)
                            (\<lambda>s. s\<lparr>s_lastChecked := clock w'\<rparr>) w')))))"

subsection \<open>processAllUserSubscriptions\<close>

record BatchResult =
  processed :: nat
  newTweets :: nat
  errors :: "string list"

text \<open>\<open>delay(ms)\<close>: the timer fires when \<open>ms\<close> milliseconds have passed.\<close>

definition delay :: "int \<Rightarrow> world \<Rightarrow> world" where
  "delay ms w = w\<lparr>clock := clock w + ms\<rparr>"

fun processAllUserSubscriptions_loop ::
  "externals \<Rightarrow> ISubscription list \<Rightarrow> BatchResult \<Rightarrow> world \<Rightarrow> BatchResult \<times> world" where
  "processAllUserSubscriptions_loop ext [] r w = (r, w)"
| "processAllUserSubscriptions_loop ext (subscription # rest) r w =
     (let timeSinceLastCheck = clock w - s_lastChecked subscription;
          checkIntervalMs = s_checkInterval subscription * 60 * 1000
      in if timeSinceLastCheck \<ge> checkIntervalMs then
           (case processSubscriptionTweets ext subscription w of
              (Inr count, w') \<Rightarrow>
                processAllUserSubscriptions_loop ext rest
                  (r\<lparr>newTweets := newTweets r + count, processed := processed r + 1\<rparr>)
                  (delay 1000 w')
            | (Inl e, w') \<Rightarrow>
                processAllUserSubscriptions_loop ext rest
                  (r\<lparr>errors := errors r @ [s_targetUsername subscription @ '': '' @ err_message e]\<rparr>)
                  w')
         else processAllUserSubscriptions_loop ext rest r w)"

definition processAllUserSubscriptions ::
  "externals \<Rightarrow> objectId \<Rightarrow> world \<Rightarrow> BatchResult \<times> world" where
  "processAllUserSubscriptions ext userId w =
     (let subs = filter (\<lambda>s. s_userId s = userId \<and> s_isActive s) (subscriptions w)
      in processAllUserSubscriptions_loop ext subs
           \<lparr>processed = 0, newTweets = 0, errors = []\<rparr> w)"

subsection \<open>createForUser\<close>

definition decryptCredentials :: "externals \<Rightarrow> TwitterCredentials \<Rightarrow> TwitterCredentials option" where
  "decryptCredentials ext encryptedData =
     (if apiKey encryptedData = [] \<or> apiSecret encryptedData = [] \<or>
         accessToken encryptedData = [] \<or> accessTokenSecret encryptedData = []
      then None
      else (case (AES_decrypt ext (apiKey encryptedData), AES_decrypt ext (apiSecret encryptedData),
                  AES_decrypt ext (accessToken encryptedData),
                  AES_decrypt ext (accessTokenSecret encryptedData)) of
              (Some k, Some s, Some t, Some ts) \<Rightarrow>
                Some \<lparr>apiKey = k, apiSecret = s, accessToken = t, accessTokenSecret = ts\<rparr>
            | _ \<Rightarrow> None))"

text \<open>
  The constructor of the service builds the client from the credentials. The service is
  known by the credentials it was built from; its remote calls are those of
  \<open>externals\<close>.
\<close>

definition new_TwitterService :: "externals \<Rightarrow> TwitterCredentials \<Rightarrow> error + TwitterCredentials" where
  "new_TwitterService ext credentials =
     (case TwitterApi ext credentials of
        Some e \<Rightarrow> Inl e
      | None \<Rightarrow> Inr credentials)"

text \<open>
  The service of a user, or \<open>null\<close>: whatever is thrown inside the \<open>try\<close>,
  by the decryption or by the constructor, gives \<open>null\<close>.
\<close>

definition createForUser :: "externals \<Rightarrow> world \<Rightarrow> objectId \<Rightarrow> TwitterCredentials option" where
  "createForUser ext w userId =
     (case find (\<lambda>u. u_id u = userId) (users w) of
        None \<Rightarrow> None
      | Some user \<Rightarrow>
          (case u_twitterCredentials user of
             None \<Rightarrow> None
           | Some encrypted \<Rightarrow>
               (case decryptCredentials ext encrypted of
                  None \<Rightarrow> None
                | Some credentials \<Rightarrow>
                    (case new_TwitterService ext credentials of
                       Inl e \<Rightarrow> None
                     | Inr service \<Rightarrow> Some service))))"

section \<open>The subscription routes (server.ts)\<close>

datatype payload =
    ErrorBody string
  | SubscriptionBody ISubscription
  | RefreshBody nat
  | MessageBody string

datatype response = Response (status: nat) (payload: payload)

text \<open>
  The body of \<open>POST /api/subscriptions\<close>. An absent \<open>targetUsername\<close> is the
  empty string the validator sees; a \<open>checkInterval\<close> that is present is an integer
  (\<open>isInt\<close> answers any other value with the same 400 as an integer out of range).
\<close>

record CreateSubscriptionBody =
  b_targetUsername :: string
  b_checkInterval :: "int option"
  b_keywords :: "string list option"
  b_includeReplies :: "bool option"
  b_includeRetweets :: "bool option"

text \<open>
  The validators of \<open>SubscriptionSchema\<close>: \<open>targetUsername\<close> is required,
  \<open>checkInterval\<close> has \<open>min: 15\<close> and \<open>max: 1440\<close>.
\<close>

definition Subscription_validate :: "ISubscription \<Rightarrow> bool" where
  "Subscription_validate s \<longleftrightarrow>
     s_targetUsername s \<noteq> [] \<and> 15 \<le> s_checkInterval s \<and> s_checkInterval s \<le> 1440"

text \<open>
  \<open>save()\<close> of a new subscription: validation, then the insert, which the unique
  compound index on \<open>(userId, targetUsername)\<close> can reject.
\<close>

definition Subscription_save_new :: "ISubscription \<Rightarrow> world \<Rightarrow> error + world" where
  "Subscription_save_new s w =
     (if \<not> Subscription_validate s then Inl (ValidationError ''Subscription'')
      else if (s_userId s, s_targetUsername s) \<in>
                (\<lambda>r. (s_userId r, s_targetUsername r)) ` set (subscriptions w)
      then Inl DuplicateKey
      else Inr (w\<lparr>subscriptions := subscriptions w @
                  [s\<lparr>s_createdAt := Some (clock w), s_updatedAt := Some (clock w)\<rparr>]\<rparr>))"

text \<open>
  \<open>save()\<close> of the document of an existing row after the reactivation assignments: the
  modified paths are validated and written to the row with the document's \<open>_id\<close>.
\<close>

definition Subscription_save_reactivated :: "ISubscription \<Rightarrow> world \<Rightarrow> error + world" where
  "Subscription_save_reactivated s w =
     (if \<not> (15 \<le> s_checkInterval s \<and> s_checkInterval s \<le> 1440)
      then Inl (ValidationError ''Subscription'')
      else Inr (w\<lparr>subscriptions :=
                  update_first (\<lambda>r. s_id r = s_id s)
                    (\<lambda>r. r\<lparr>s_isActive := s_isActive s, s_checkInterval := s_checkInterval s,
                           s_keywords := s_keywords s, s_includeReplies := s_includeReplies s,
                           s_includeRetweets := s_includeRetweets s,
                           s_lastChecked := s_lastChecked s, s_updatedAt := Some (clock w)\<rparr>)
                    (subscriptions w)\<rparr>))"

text \<open>The \<open>catch\<close> blocks answer \<open>error.message || fallback\<close>.\<close>

definition message_or :: "error \<Rightarrow> string \<Rightarrow> string" where
  "message_or e fallback = (if err_message e = [] then fallback else err_message e)"

text \<open>\<open>POST /api/subscriptions\<close>, for the authenticated user \<open>userId\<close>.\<close>

definition createSubscription ::
  "externals \<Rightarrow> objectId \<Rightarrow> CreateSubscriptionBody \<Rightarrow> world \<Rightarrow> response \<times> world" where
  "createSubscription ext userId body w =
     (if b_targetUsername body = [] \<or>
         (case b_checkInterval body of None \<Rightarrow> False | Some i \<Rightarrow> \<not> (15 \<le> i \<and> i \<le> 1440))
      then (Response 400 (ErrorBody ''Validation failed''), w)
      else
        let targetUsername = toLowerCase (trim (b_targetUsername body));
            checkInterval = (case b_checkInterval body of None \<Rightarrow> 60 | Some i \<Rightarrow> i);
            keywords = (case b_keywords body of None \<Rightarrow> [] | Some ks \<Rightarrow> ks);
            includeReplies = (case b_includeReplies body of None \<Rightarrow> False | Some b \<Rightarrow> b);
            includeRetweets = (case b_includeRetweets body of None \<Rightarrow> False | Some b \<Rightarrow> b)
        in
        if (case find (\<lambda>u. u_id u = userId) (users w) of
              None \<Rightarrow> True | Some user \<Rightarrow> u_twitterCredentials user = None)
        then (Response 400 (ErrorBody ''Twitter credentials not setup''), w)
        else
          (case createForUser ext w userId of
             None \<Rightarrow> (Response 400 (ErrorBody ''Failed to initialize Twitter service''), w)
           | Some twitterService \<Rightarrow>
               (case getUserByUsername ext targetUsername of
                  Inl e \<Rightarrow>
                    (Response 500 (ErrorBody (message_or e ''Failed to create subscription'')), w)
                | Inr targetUser \<Rightarrow>
                    (case find (\<lambda>s. s_userId s = userId \<and> s_targetUsername s = targetUsername)
                            (subscriptions w) of
                       Some existingSub \<Rightarrow>
                         if s_isActive existingSub
                         then (Response 400 (ErrorBody ''Already subscribed to this user''), w)
                         else
                           (let existingSub =
                                  existingSub\<lparr>s_isActive := True, s_checkInterval := checkInterval,
                                    s_keywords := map trim keywords,
                                    s_includeReplies := includeReplies,
                                    s_includeRetweets := includeRetweets,
                                    s_lastChecked := clock w\<rparr>
                            in case Subscription_save_reactivated existingSub w of
                                 Inl e \<Rightarrow>
                                   (Response 500
                                      (ErrorBody (message_or e ''Failed to create subscription'')), w)
                               | Inr w' \<Rightarrow>
                                   (Response 200
                                      (SubscriptionBody
                                         (existingSub\<lparr>s_updatedAt := Some (clock w)\<rparr>)), w'))
                     | None \<Rightarrow>
                         (let subscription =
                                \<lparr>s_id = nextId w, s_userId = userId,
                                 s_targetUsername = trim (toLowerCase targetUsername),
                                 s_isActive = True, s_checkInterval = checkInterval,
                                 s_lastChecked = clock w, s_keywords = map trim keywords,
                                 s_includeReplies = includeReplies,
                                 s_includeRetweets = includeRetweets,
                                 s_createdAt = None, s_updatedAt = None\<rparr>;
                              w1 = w\<lparr>nextId := nextId w + 1\<rparr>
                          in case Subscription_save_new subscription w1 of
                               Inl e \<Rightarrow>
                                 (Response 500
                                    (ErrorBody (message_or e ''Failed to create subscription'')), w1)
                             | Inr w' \<Rightarrow>
                                 (case targetUser of
                                    None \<Rightarrow>
                                      (Response 500
                                         (ErrorBody ''Cannot read properties of undefined''), w')
                                  | Some tu \<Rightarrow>
                                      (Response 201
                                         (SubscriptionBody
                                            (subscription\<lparr>s_createdAt := Some (clock w),
                                               s_updatedAt := Some (clock w)\<rparr>)), w')))))))"

text \<open>\<open>DELETE /api/subscriptions/:id\<close>.\<close>

definition deleteSubscription :: "objectId \<Rightarrow> objectId \<Rightarrow> world \<Rightarrow> response \<times> world" where
  "deleteSubscription subscriptionId userId w =
     (case Subscription_findOneAndUpdate
             (\<lambda>s. s_id s = subscriptionId \<and> s_userId s = userId)
             (\<lambda>s. s\<lparr>s_isActive := False\<rparr>) w of
        (None, w') \<Rightarrow> (Response 404 (ErrorBody ''Subscription not found''), w')
      | (Some subscription, w') \<Rightarrow>
          (Response 200 (MessageBody ''Subscription deleted successfully''), w'))"

text \<open>\<open>POST /api/subscriptions/:id/refresh\<close>.\<close>

definition refreshSubscription ::
  "externals \<Rightarrow> objectId \<Rightarrow> objectId \<Rightarrow> world \<Rightarrow> response \<times> world" where
  "refreshSubscription ext subscriptionId userId w =
     (case find (\<lambda>s. s_id s = subscriptionId \<and> s_userId s = userId) (subscriptions w) of
        None \<Rightarrow> (Response 404 (ErrorBody ''Subscription not found''), w)
      | Some subscription \<Rightarrow>
          (case createForUser ext w userId of
             None \<Rightarrow> (Response 400 (ErrorBody ''Twitter service unavailable''), w)
           | Some twitterService \<Rightarrow>
               (case processSubscriptionTweets ext subscription w of
                  (Inl e, w') \<Rightarrow>
                    (Response 500 (ErrorBody (message_or e ''Failed to refresh subscription'')), w')
                | (Inr newTweetsCount, w') \<Rightarrow> (Response 200 (RefreshBody newTweetsCount), w'))))"

text \<open>
  The scheduled job: every active user with credentials, a pause of two seconds after
  each; the totals are only logged.
\<close>

fun scheduled_loop :: "externals \<Rightarrow> IUser list \<Rightarrow> world \<Rightarrow> world" where
  "scheduled_loop ext [] w = w"
| "scheduled_loop ext (user # rest) w =
     (case createForUser ext w (u_id user) of
        Some twitterService \<Rightarrow>
          scheduled_loop ext rest
            (delay 2000 (snd (processAllUserSubscriptions ext (u_id user) w)))
      | None \<Rightarrow> scheduled_loop ext rest (delay 2000 w))"

definition scheduled_job :: "externals \<Rightarrow> world \<Rightarrow> world" where
  "scheduled_job ext w =
     scheduled_loop ext
       (filter (\<lambda>u. u_isActive u \<and> u_twitterCredentials u \<noteq> None) (users w)) w"

section \<open>The test-data script (scripts/create-test-tweets.ts)\<close>

text \<open>
  For each of its two account names the script finds the test user's subscription or
  creates one, checked 48 hours ago. A throwing save ends the script (its \<open>catch\<close>
  logs the error).
\<close>

fun createTestTweets_subscriptions ::
  "objectId \<Rightarrow> string list \<Rightarrow> world \<Rightarrow> error option \<times> world" where
  "createTestTweets_subscriptions userId [] w = (None, w)"
| "createTestTweets_subscriptions userId (uname # rest) w =
     (case find (\<lambda>s. s_userId s = userId \<and> s_targetUsername s = uname) (subscriptions w) of
        Some subscription \<Rightarrow> createTestTweets_subscriptions userId rest w
      | None \<Rightarrow>
          (let subscription =
                 \<lparr>s_id = nextId w, s_userId = userId,
                  s_targetUsername = trim (toLowerCase uname),
                  s_isActive = True, s_checkInterval = 60,
                  s_lastChecked = clock w - 48 * 60 * 60 * 1000, s_keywords = [],
                  s_includeReplies = False, s_includeRetweets = False,
                  s_createdAt = None, s_updatedAt = None\<rparr>;
               w1 = w\<lparr>nextId := nextId w + 1\<rparr>
           in case Subscription_save_new subscription w1 of
                Inl e \<Rightarrow> (Some e, w1)
              | Inr w' \<Rightarrow> createTestTweets_subscriptions userId rest w'))"

text \<open>
  Then it saves one post per sample tweet, skipping a sample whose content the user
  already has. The rows (sample contents under generated identifiers) are taken as given.
\<close>

fun createTestTweets_posts :: "IPost list \<Rightarrow> world \<Rightarrow> world" where
  "createTestTweets_posts [] w = w"
| "createTestTweets_posts (post # rest) w =
     (if \<exists>q\<in>set (posts w). p_userId q = p_userId post \<and> p_content q = p_content post
      then createTestTweets_posts rest w
      else (case Post_save post w of
              Inl e \<Rightarrow> w
            | Inr w' \<Rightarrow> createTestTweets_posts rest w'))"

definition createTestTweets :: "IPost list \<Rightarrow> world \<Rightarrow> world" where
  "createTestTweets rows w =
     (case find (\<lambda>u. u_email u = ''test@example.com'') (users w) of
        None \<Rightarrow> w
      | Some user \<Rightarrow>
          (case createTestTweets_subscriptions (u_id user) [''elonmusk'', ''twitter''] w of
             (Some e, w') \<Rightarrow> w'
           | (None, w') \<Rightarrow> createTestTweets_posts rows w'))"

section \<open>Reachable states\<close>

datatype event =
    CreateSubscription objectId CreateSubscriptionBody
  | DeleteSubscription objectId objectId
  | RefreshSubscription objectId objectId
  | ProcessAllUserSubscriptions objectId
  | ScheduledJob
  | CreateTestTweets "IPost list"
  | AccountRoutes "IUser list"
  | Elapse nat
  | Overlap "IPost list list"

text \<open>
  One step of the system: a request to a subscription route, a run of the service, a run
  of the test-data script, the account routes (registration, Twitter setup) rewriting the
  User collection in whatever way, time passing, or other writers becoming active (their
  rows are committed in the windows of the runs that follow). The refresh-and-summarize
  route acts on the store as refreshes of the user's active subscriptions with pauses in
  between. The routes left out only read, or write the read flag of posts and the
  activity log.
\<close>

fun perform :: "externals \<Rightarrow> event \<Rightarrow> world \<Rightarrow> world" where
  "perform ext (CreateSubscription userId body) w = snd (createSubscription ext userId body w)"
| "perform ext (DeleteSubscription subscriptionId userId) w =
     snd (deleteSubscription subscriptionId userId w)"
| "perform ext (RefreshSubscription subscriptionId userId) w =
     snd (refreshSubscription ext subscriptionId userId w)"
| "perform ext (ProcessAllUserSubscriptions userId) w =
     snd (processAllUserSubscriptions ext userId w)"
| "perform ext ScheduledJob w = scheduled_job ext w"
| "perform ext (CreateTestTweets rows) w = createTestTweets rows w"
| "perform ext (AccountRoutes us) w = w\<lparr>users := us\<rparr>"
| "perform ext (Elapse ms) w = w\<lparr>clock := clock w + int ms\<rparr>"
| "perform ext (Overlap rows) w = w\<lparr>concurrent := rows\<rparr>"

text \<open>
  The states the system can be in: it starts with no subscription, and the remote side
  may answer differently at every step.
\<close>

inductive reachable :: "world \<Rightarrow> bool" where
  initial: "subscriptions w = [] \<Longrightarrow> reachable w"
| step: "reachable w \<Longrightarrow> reachable (perform ext ev w)"

section \<open>Notions used in the statements\<close>

text \<open>The row a save writes: the document with both stamps set to the time of the save.\<close>

definition stamp :: "date \<Rightarrow> IPost \<Rightarrow> IPost" where
  "stamp now p = p\<lparr>p_createdAt := Some now, p_updatedAt := Some now\<rparr>"

text \<open>The stored checkpoint of the subscription with a given \<open>_id\<close>.\<close>

definition checkpoint :: "objectId \<Rightarrow> world \<Rightarrow> date option" where
  "checkpoint sid w = map_option s_lastChecked (find (\<lambda>s. s_id s = sid) (subscriptions w))"

text \<open>The final update of \<open>processSubscriptionTweets\<close>, on its own.\<close>

definition advance_checkpoint :: "ISubscription \<Rightarrow> world \<Rightarrow> world" where
  "advance_checkpoint subscription w =
     snd (Subscription_findOneAndUpdate (\<lambda>s. s_id s = s_id subscription)
            (\<lambda>s. s\<lparr>s_lastChecked := clock w\<rparr>) w)"

text \<open>
  The tweets a reconciliation of the subscription gets from \<open>getUserTweets\<close>
  (none when the account or the timeline cannot be fetched).
\<close>

definition fetchedTweets :: "externals \<Rightarrow> ISubscription \<Rightarrow> TweetData list" where
  "fetchedTweets ext subscription =
     (case getUserByUsername ext (s_targetUsername subscription) of
        Inr (Some targetUser) \<Rightarrow>
          (case getUserTweets ext (uv_id targetUser) (subscriptionOptions subscription) of
             Inr tweets \<Rightarrow> tweets
           | Inl e \<Rightarrow> [])
      | _ \<Rightarrow> [])"

text \<open>The pair the unique compound index of \<open>SubscriptionSchema\<close> is on.\<close>

definition sub_key :: "ISubscription \<Rightarrow> objectId \<times> string" where
  "sub_key s = (s_userId s, s_targetUsername s)"

text \<open>The test of \<open>processAllUserSubscriptions\<close> on one subscription.\<close>

definition is_due :: "ISubscription \<Rightarrow> world \<Rightarrow> bool" where
  "is_due subscription w \<longleftrightarrow>
     clock w - s_lastChecked subscription \<ge> s_checkInterval subscription * 60 * 1000"

text \<open>A subscription row without its active flag and its update stamp.\<close>

definition without_active :: "ISubscription \<Rightarrow> ISubscription" where
  "without_active s = s\<lparr>s_isActive := False, s_updatedAt := None\<rparr>"

subsection \<open>Keywords as regular expressions\<close>

text \<open>
  The syntax characters of an ECMAScript pattern. A pattern of ASCII characters without
  them is a sequence of literal characters; with \<open>|\<close> as the only syntax character
  it is an alternation of such sequences, and \<open>test\<close> under the \<open>i\<close> flag
  finds one of the alternatives somewhere in the text, the case of the letters
  \<open>A\<close> to \<open>Z\<close> aside (under this flag no character outside ASCII is taken
  for an ASCII one). Patterns with other letters are left to the engine: it folds their
  case too.
\<close>

definition isSyntaxCharacter :: "char \<Rightarrow> bool" where
  "isSyntaxCharacter c \<longleftrightarrow> c \<in> set ''^$.*+?()[]{}|'' \<or> c = CHR 0x5C"

definition isASCII :: "char \<Rightarrow> bool" where
  "isASCII c \<longleftrightarrow> (of_char c :: nat) < 128"

definition literal_keyword :: "string \<Rightarrow> bool" where
  "literal_keyword k \<longleftrightarrow> list_all (\<lambda>c. isASCII c \<and> \<not> isSyntaxCharacter c) k"

fun alternatives :: "string \<Rightarrow> string list" where
  "alternatives [] = [[]]"
| "alternatives (c # cs) =
     (if c = CHR ''|'' then [] # alternatives cs
      else (case alternatives cs of [] \<Rightarrow> [[c]] | a # as \<Rightarrow> (c # a) # as))"

definition includes_i :: "string \<Rightarrow> string \<Rightarrow> bool" where
  "includes_i txt k = String_includes (toLowerCase txt) (toLowerCase k)"

definition test_alternation_i :: "string \<Rightarrow> string \<Rightarrow> bool" where
  "test_alternation_i pattern txt = list_ex (includes_i txt) (alternatives pattern)"

definition alternation_pattern :: "string \<Rightarrow> bool" where
  "alternation_pattern pattern \<longleftrightarrow>
     list_all (\<lambda>c. isASCII c \<and> (isSyntaxCharacter c \<longrightarrow> c = CHR ''|'')) pattern"

text \<open>
  An engine that treats the alternations of ASCII literals the way ECMAScript does.
\<close>

definition conforming_engine :: "externals \<Rightarrow> bool" where
  "conforming_engine ext \<longleftrightarrow>
     (\<forall>pattern. alternation_pattern pattern \<longrightarrow>
        RegExp_i ext pattern = Inr (test_alternation_i pattern))"

section \<open>Example scenarios\<close>

definition tweet_launch :: TweetData where
  "tweet_launch =
     \<lparr>t_id = ''t1'', t_text = ''Launch day'', t_author_id = ''42'', t_created_at = 1001,
      t_public_metrics = \<lparr>retweet_count = 1, like_count = 2, reply_count = 3, quote_count = 0\<rparr>,
      t_attachments = None, t_entities = None, t_referenced_tweets = None\<rparr>"

definition tweet_reply :: TweetData where
  "tweet_reply =
     \<lparr>t_id = ''t2'', t_text = ''hello'', t_author_id = ''77'', t_created_at = 1002,
      t_public_metrics = \<lparr>retweet_count = 0, like_count = 0, reply_count = 0, quote_count = 0\<rparr>,
      t_attachments = None, t_entities = None,
      t_referenced_tweets = Some [\<lparr>ref_type = ''replied_to'', ref_id = ''t0''\<rparr>]\<rparr>"

definition tweet_blank :: TweetData where
  "tweet_blank =
     \<lparr>t_id = ''t4'', t_text = '''', t_author_id = ''43'', t_created_at = 1003,
      t_public_metrics = \<lparr>retweet_count = 0, like_count = 0, reply_count = 0, quote_count = 0\<rparr>,
      t_attachments = None, t_entities = None, t_referenced_tweets = None\<rparr>"

text \<open>
  A remote side with four accounts: \<open>acme\<close> has two posts, the second a reply by
  someone else; \<open>blank\<close> has a post and then one with an empty text; the timeline of
  \<open>down\<close> is unavailable; \<open>quiet\<close> has no data. Its regular expressions are
  the alternations of ASCII literals; it rejects every other pattern, as ECMAScript
  rejects \<open>launch|c++\<close> (nothing to repeat). Its client constructor refuses empty
  consumer tokens.
\<close>

definition account :: "string \<Rightarrow> string \<Rightarrow> UserV2" where
  "account uid uname =
     \<lparr>uv_id = uid, uv_name = uname, uv_username = uname, uv_profile_image_url = None\<rparr>"

definition ext_demo :: externals where
  "ext_demo =
     \<lparr>userByUsername = (\<lambda>u.
         if u = ''acme'' then Inr (Some (account ''42'' ''acme''))
         else if u = ''blank'' then Inr (Some (account ''43'' ''blank''))
         else if u = ''down'' then Inr (Some (account ''44'' ''down''))
         else if u = ''quiet'' then Inr (Some (account ''45'' ''quiet''))
         else Inl (Error (Some 404) ''Not Found'')),
      userTimeline = (\<lambda>uid params.
         if uid = ''42'' then Inr (Some [tweet_launch, tweet_reply])
         else if uid = ''43'' then Inr (Some [tweet_launch\<lparr>t_id := ''t3''\<rparr>, tweet_blank])
         else if uid = ''45'' then Inr None
         else Inl (Error (Some 503) ''Service Unavailable'')),
      RegExp_i = (\<lambda>pattern.
         if alternation_pattern pattern then Inr (test_alternation_i pattern)
         else Inl ''Invalid regular expression''),
      AES_decrypt = (\<lambda>c. Some c),
      TwitterApi = (\<lambda>c.
         if apiKey c = [] \<or> apiSecret c = [] then Some (Error None ''Invalid consumer tokens'')
         else None)\<rparr>"

definition sub_demo :: "objectId \<Rightarrow> string \<Rightarrow> ISubscription" where
  "sub_demo i target =
     \<lparr>s_id = i, s_userId = 1, s_targetUsername = target, s_isActive = True,
      s_checkInterval = 60, s_lastChecked = 1000, s_keywords = [],
      s_includeReplies = False, s_includeRetweets = False,
      s_createdAt = Some 1000, s_updatedAt = Some 1000\<rparr>"

definition user_demo :: IUser where
  "user_demo =
     \<lparr>u_id = 1, u_email = ''a@example.com'', u_password = ''hash'', u_isActive = True,
      u_twitterUsername = None,
      u_twitterCredentials =
        Some \<lparr>apiKey = ''k'', apiSecret = ''s'', accessToken = ''t'', accessTokenSecret = ''ts''\<rparr>,
      u_createdAt = 0, u_updatedAt = 0\<rparr>"

definition w_demo :: "ISubscription list \<Rightarrow> world" where
  "w_demo subs =
     \<lparr>users = [user_demo], subscriptions = subs, posts = [], clock = 5000000, nextId = 20,
      concurrent = []\<rparr>"

text \<open>
  A second reconciliation of the same subscription is under way: it commits its row for
  the post \<open>t1\<close> between this run's existence check and its save.
\<close>

definition w_race :: world where
  "w_race =
     (w_demo [sub_demo 10 ''acme''])
       \<lparr>concurrent :=
          [[stamp 4999999 (new_Post (sub_demo 10 ''acme'') (account ''42'' ''acme'') tweet_launch)]]\<rparr>"

text \<open>Three active subscriptions of one user, all due; the timeline of the second is down.\<close>

definition w_three :: world where
  "w_three = w_demo [sub_demo 10 ''acme'', sub_demo 13 ''down'', sub_demo 14 ''quiet'']"


text \<open>
  The other writer is one post behind: nothing is committed in the window of the first
  save, and its row for the post \<open>t2\<close> is committed in the window of the second.
\<close>

definition w_race2 :: world where
  "w_race2 =
     (w_demo [sub_demo 10 ''acme''])
       \<lparr>concurrent :=
          [[], [stamp 4999999 (new_Post (sub_demo 10 ''acme'') (account ''42'' ''acme'') tweet_reply)]]\<rparr>"
text \<open>
  The two invariants of the Subscription collection: the pairs \<open>(userId, targetUsername)\<close>
  are pairwise different, and every \<open>checkInterval\<close> is between 15 and 1440.
\<close>

definition subscription_invariant :: "world \<Rightarrow> bool" where
  "subscription_invariant w \<longleftrightarrow>
     distinct (map sub_key (subscriptions w)) \<and>
     list_all (\<lambda>i. 15 \<le> i \<and> i \<le> 1440) (map s_checkInterval (subscriptions w))"

text \<open>Identifiers come from the generator: they are below it and pairwise different.\<close>

definition ids_fresh :: "world \<Rightarrow> bool" where
  "ids_fresh w \<longleftrightarrow>
     distinct (map s_id (subscriptions w)) \<and> list_all (\<lambda>i. i < nextId w) (map s_id (subscriptions w))"

text \<open>The paths of a subscription that only a create request writes.\<close>

definition sub_static :: "ISubscription \<Rightarrow> objectId \<times> (objectId \<times> string) \<times> int" where
  "sub_static s = (s_id s, sub_key s, s_checkInterval s)"

definition body_demo :: CreateSubscriptionBody where
  "body_demo =
     \<lparr>b_targetUsername = '' Acme'', b_checkInterval = Some 30, b_keywords = Some [''launch ''],
      b_includeReplies = Some True, b_includeRetweets = None\<rparr>"

definition w_inactive :: world where
  "w_inactive = w_demo [(sub_demo 10 ''acme'')\<lparr>s_isActive := False\<rparr>]"

text \<open>No stored checkpoint is ahead of the clock.\<close>

definition checkpoints_past :: "world \<Rightarrow> bool" where
  "checkpoints_past w \<longleftrightarrow> list_all (\<lambda>s. s_lastChecked s \<le> clock w) (subscriptions w)"


text \<open>
  A state reached by two create requests and a second of time: the user follows
  \<open>acme\<close> (for the keyword \<open>launch\<close>) and \<open>blank\<close>.
\<close>

definition body_blank :: CreateSubscriptionBody where
  "body_blank =
     \<lparr>b_targetUsername = ''blank'', b_checkInterval = None, b_keywords = None,
      b_includeReplies = None, b_includeRetweets = None\<rparr>"

definition w_two :: world where
  "w_two =
     perform ext_demo (Elapse 1000)
       (perform ext_demo (CreateSubscription 1 body_blank)
          (perform ext_demo (CreateSubscription 1 body_demo) (w_demo [])))"

definition sub_acme :: ISubscription where
  "sub_acme =
     \<lparr>s_id = 20, s_userId = 1, s_targetUsername = ''acme'', s_isActive = True,
      s_checkInterval = 30, s_lastChecked = 5000000, s_keywords = [''launch''],
      s_includeReplies = True, s_includeRetweets = False,
      s_createdAt = Some 5000000, s_updatedAt = Some 5000000\<rparr>"

definition sub_blank :: ISubscription where
  "sub_blank =
     \<lparr>s_id = 21, s_userId = 1, s_targetUsername = ''blank'', s_isActive = True,
      s_checkInterval = 60, s_lastChecked = 5000000, s_keywords = [],
      s_includeReplies = False, s_includeRetweets = False,
      s_createdAt = Some 5000000, s_updatedAt = Some 5000000\<rparr>"

text \<open>
  A remote side whose clock is ahead of the server's: the timeline of \<open>acme\<close> has a
  post with a creation time later than the time the server reads.
\<close>

definition tweet_ahead :: TweetData where
  "tweet_ahead = tweet_launch\<lparr>t_id := ''t9'', t_created_at := 9000000\<rparr>"

definition ext_skew :: externals where
  "ext_skew = ext_demo\<lparr>userTimeline := (\<lambda>uid params. Inr (Some [tweet_ahead]))\<rparr>"
section \<open>Auxiliary lemmas\<close>

lemma toTweetData_id [simp]: "toTweetData t = t"
  by (simp add: toTweetData_def)

lemma map_toTweetData [simp]: "map toTweetData ts = ts"
  by (induction ts) simp_all

lemma Post_findOne_tweetId_None:
  "Post_findOne_tweetId tid w = None \<longleftrightarrow> tid \<notin> p_tweetId ` set (posts w)"
  by (auto simp: Post_findOne_tweetId_def find_None_iff)

lemma Post_findOne_tweetId_Some:
  "Post_findOne_tweetId tid w = Some p \<Longrightarrow> p \<in> set (posts w) \<and> p_tweetId p = tid"
  by (auto simp: Post_findOne_tweetId_def find_Some_iff)

lemma Post_save_Inr:
  "Post_save p w = Inr w' \<Longrightarrow> w' = w\<lparr>posts := posts w @ [stamp (clock w) p]\<rparr>"
  by (auto simp: Post_save_def stamp_def split: if_splits)

lemma foldl_commit_concurrent:
  "\<exists>new. foldl commit_concurrent ps rows = ps @ new \<and> set new \<subseteq> set rows"
proof (induction rows arbitrary: ps)
  case Nil
  then show ?case by simp
next
  case (Cons r rows)
  obtain new where n: "foldl commit_concurrent (commit_concurrent ps r) rows = commit_concurrent ps r @ new"
    "set new \<subseteq> set rows"
    using Cons.IH by blast
  show ?case
  proof (cases "p_tweetId r \<in> p_tweetId ` set ps")
    case True
    then have "commit_concurrent ps r = ps" by (simp add: commit_concurrent_def)
    with n have "foldl commit_concurrent ps (r # rows) = ps @ new" by simp
    moreover have "set new \<subseteq> set (r # rows)" using n(2) by auto
    ultimately show ?thesis by blast
  next
    case False
    then have "commit_concurrent ps r = ps @ [r]" by (simp add: commit_concurrent_def)
    with n have "foldl commit_concurrent ps (r # rows) = ps @ (r # new)"
      by simp
    moreover have "set (r # new) \<subseteq> set (r # rows)" using n(2) by auto
    ultimately show ?thesis by blast
  qed
qed

lemma concurrent_window_posts:
  "\<exists>new. posts (concurrent_window w) = posts w @ new \<and> set new \<subseteq> set (concat (concurrent w))"
proof (cases "concurrent w")
  case Nil
  then show ?thesis by (simp add: concurrent_window_def)
next
  case (Cons rows rest)
  obtain new where "foldl commit_concurrent (posts w) rows = posts w @ new" "set new \<subseteq> set rows"
    using foldl_commit_concurrent by blast
  with Cons show ?thesis by (auto simp: concurrent_window_def)
qed

lemma concurrent_window_frame [simp]:
  "subscriptions (concurrent_window w) = subscriptions w"
  "clock (concurrent_window w) = clock w"
  "users (concurrent_window w) = users w"
  "nextId (concurrent_window w) = nextId w"
  by (simp_all add: concurrent_window_def split: list.splits)

lemma concurrent_window_pool:
  "set (concat (concurrent (concurrent_window w))) \<subseteq> set (concat (concurrent w))"
  by (auto simp: concurrent_window_def split: list.splits)

lemma loop_frame:
  "processSubscriptionTweets_loop sub tu ts n w = (r, w') \<Longrightarrow>
     subscriptions w' = subscriptions w \<and> clock w' = clock w \<and> users w' = users w \<and>
     nextId w' = nextId w"
proof (induction ts arbitrary: n w)
  case Nil
  then show ?case by auto
next
  case (Cons t ts)
  show ?case
  proof (cases "Post_findOne_tweetId (t_id t) w")
    case (Some p)
    with Cons show ?thesis by simp
  next
    case None
    show ?thesis
    proof (cases "Post_save (new_Post sub tu t) (concurrent_window w)")
      case (Inl e)
      with None Cons.prems show ?thesis by (auto simp: Let_def)
    next
      case (Inr w2)
      with None Cons.prems have
        "processSubscriptionTweets_loop sub tu ts (n + 1) w2 = (r, w')"
        by (simp add: Let_def)
      from Cons.IH[OF this] Post_save_Inr[OF Inr] show ?thesis by simp
    qed
  qed
qed

lemma loop_posts_grow:
  "processSubscriptionTweets_loop sub tu ts n w = (r, w') \<Longrightarrow> \<exists>new. posts w' = posts w @ new"
proof (induction ts arbitrary: n w)
  case Nil
  then show ?case by auto
next
  case (Cons t ts)
  show ?case
  proof (cases "Post_findOne_tweetId (t_id t) w")
    case (Some p)
    with Cons show ?thesis by simp
  next
    case None
    obtain new1 where n1: "posts (concurrent_window w) = posts w @ new1"
      using concurrent_window_posts by blast
    show ?thesis
    proof (cases "Post_save (new_Post sub tu t) (concurrent_window w)")
      case (Inl e)
      with None Cons.prems n1 show ?thesis by (auto simp: Let_def)
    next
      case (Inr w2)
      with None Cons.prems have
        "processSubscriptionTweets_loop sub tu ts (n + 1) w2 = (r, w')"
        by (simp add: Let_def)
      from Cons.IH[OF this] obtain new2 where "posts w' = posts w2 @ new2" by blast
      with Post_save_Inr[OF Inr] n1 show ?thesis by simp
    qed
  qed
qed

lemma loop_success_present:
  "processSubscriptionTweets_loop sub tu ts n w = (Inr m, w') \<Longrightarrow>
     \<forall>t\<in>set ts. t_id t \<in> p_tweetId ` set (posts w')"
proof (induction ts arbitrary: n w)
  case Nil
  then show ?case by simp
next
  case (Cons t ts)
  show ?case
  proof (cases "Post_findOne_tweetId (t_id t) w")
    case (Some p)
    with Cons.prems have run: "processSubscriptionTweets_loop sub tu ts n w = (Inr m, w')"
      by simp
    from loop_posts_grow[OF run] obtain new where "posts w' = posts w @ new" by blast
    moreover from Some have "t_id t \<in> p_tweetId ` set (posts w)"
      using Post_findOne_tweetId_Some by force
    ultimately show ?thesis using Cons.IH[OF run] by auto
  next
    case None
    show ?thesis
    proof (cases "Post_save (new_Post sub tu t) (concurrent_window w)")
      case (Inl e)
      with None Cons.prems show ?thesis by (auto simp: Let_def)
    next
      case (Inr w2)
      with None Cons.prems have run:
        "processSubscriptionTweets_loop sub tu ts (n + 1) w2 = (Inr m, w')"
        by (simp add: Let_def)
      from loop_posts_grow[OF run] obtain new where "posts w' = posts w2 @ new" by blast
      moreover have "t_id t \<in> p_tweetId ` set (posts w2)"
        using Post_save_Inr[OF Inr] by (simp add: stamp_def new_Post_def Let_def)
      ultimately show ?thesis using Cons.IH[OF run] by auto
    qed
  qed
qed

lemma loop_all_present:
  "\<forall>t\<in>set ts. t_id t \<in> p_tweetId ` set (posts w) \<Longrightarrow>
     processSubscriptionTweets_loop sub tu ts n w = (Inr n, w)"
proof (induction ts)
  case Nil
  then show ?case by simp
next
  case (Cons t ts)
  then have "Post_findOne_tweetId (t_id t) w \<noteq> None"
    by (simp add: Post_findOne_tweetId_None)
  then obtain p where "Post_findOne_tweetId (t_id t) w = Some p" by blast
  with Cons show ?case by simp
qed


lemma advance_checkpoint_frame [simp]:
  "posts (advance_checkpoint sub w) = posts w"
  "clock (advance_checkpoint sub w) = clock w"
  "users (advance_checkpoint sub w) = users w"
  "nextId (advance_checkpoint sub w) = nextId w"
  "concurrent (advance_checkpoint sub w) = concurrent w"
  by (simp_all add: advance_checkpoint_def Subscription_findOneAndUpdate_def Let_def)

lemma process_Inr:
  assumes "processSubscriptionTweets ext sub w = (Inr n, w')"
  obtains tu tweets w1 where
    "getUserByUsername ext (s_targetUsername sub) = Inr (Some tu)"
    "getUserTweets ext (uv_id tu) (subscriptionOptions sub) = Inr tweets"
    "processSubscriptionTweets_loop sub tu tweets 0 w = (Inr n, w1)"
    "w' = advance_checkpoint sub w1"
  using assms
  by (auto simp: processSubscriptionTweets_def advance_checkpoint_def
      split: sum.splits option.splits prod.splits)

lemma process_Inl:
  assumes "processSubscriptionTweets ext sub w = (Inl e, w')"
  shows "(getUserByUsername ext (s_targetUsername sub) = Inl e \<and> w' = w) \<or>
         (getUserByUsername ext (s_targetUsername sub) = Inr None \<and>
            e = Error None ''Cannot read properties of undefined'' \<and> w' = w) \<or>
         (\<exists>tu. getUserByUsername ext (s_targetUsername sub) = Inr (Some tu) \<and>
            getUserTweets ext (uv_id tu) (subscriptionOptions sub) = Inl e \<and> w' = w) \<or>
         (\<exists>tu tweets. getUserByUsername ext (s_targetUsername sub) = Inr (Some tu) \<and>
            getUserTweets ext (uv_id tu) (subscriptionOptions sub) = Inr tweets \<and>
            processSubscriptionTweets_loop sub tu tweets 0 w = (Inl e, w'))"
  using assms
  by (auto simp: processSubscriptionTweets_def
      split: sum.splits option.splits prod.splits)

lemma process_failure_frame:
  assumes "processSubscriptionTweets ext sub w = (Inl e, w')"
  shows "subscriptions w' = subscriptions w \<and> clock w' = clock w \<and> users w' = users w \<and>
         nextId w' = nextId w"
  using process_Inl[OF assms] loop_frame by fastforce

lemma process_posts_grow:
  assumes "processSubscriptionTweets ext sub w = (r, w')"
  shows "\<exists>new. posts w' = posts w @ new"
proof (cases r)
  case (Inl e)
  with assms process_Inl[of ext sub w e w'] loop_posts_grow show ?thesis by fastforce
next
  case (Inr n)
  with assms obtain tu tweets w1 where
    "processSubscriptionTweets_loop sub tu tweets 0 w = (Inr n, w1)" "w' = advance_checkpoint sub w1"
    by (auto elim: process_Inr)
  with loop_posts_grow show ?thesis by fastforce
qed

lemma loop_error_origin:
  "processSubscriptionTweets_loop sub tu ts n w = (Inl e, w') \<Longrightarrow>
     \<exists>t\<in>set ts. Post_save (new_Post sub tu t) w' = Inl e"
proof (induction ts arbitrary: n w)
  case Nil
  then show ?case by simp
next
  case (Cons t ts)
  show ?case
  proof (cases "Post_findOne_tweetId (t_id t) w")
    case (Some p)
    with Cons show ?thesis by simp
  next
    case None
    show ?thesis
    proof (cases "Post_save (new_Post sub tu t) (concurrent_window w)")
      case (Inl e')
      with None Cons.prems show ?thesis by (auto simp: Let_def)
    next
      case (Inr w2)
      with None Cons.prems have
        "processSubscriptionTweets_loop sub tu ts (n + 1) w2 = (Inl e, w')"
        by (simp add: Let_def)
      from Cons.IH[OF this] show ?thesis by simp
    qed
  qed
qed

lemma loop_skips_stored:
  "\<forall>x\<in>set pre. t_id x \<in> p_tweetId ` set (posts w) \<Longrightarrow>
     processSubscriptionTweets_loop sub tu (pre @ ts) n w =
     processSubscriptionTweets_loop sub tu ts n w"
proof (induction pre)
  case Nil
  then show ?case by simp
next
  case (Cons x pre)
  then have "Post_findOne_tweetId (t_id x) w \<noteq> None"
    by (simp add: Post_findOne_tweetId_None)
  then obtain p where "Post_findOne_tweetId (t_id x) w = Some p" by blast
  with Cons show ?case by simp
qed

lemma loop_rows_origin:
  "processSubscriptionTweets_loop sub tu ts n w = (r, w') \<Longrightarrow>
     set (posts w') \<subseteq> set (posts w) \<union> set (concat (concurrent w)) \<union>
        (\<lambda>t. stamp (clock w) (new_Post sub tu t)) ` set ts"
proof (induction ts arbitrary: n w)
  case Nil
  then show ?case by auto
next
  case (Cons t ts)
  show ?case
  proof (cases "Post_findOne_tweetId (t_id t) w")
    case (Some p)
    with Cons.prems have "processSubscriptionTweets_loop sub tu ts n w = (r, w')" by simp
    from Cons.IH[OF this] show ?thesis by auto
  next
    case None
    obtain new1 where n1: "posts (concurrent_window w) = posts w @ new1"
      "set new1 \<subseteq> set (concat (concurrent w))"
      using concurrent_window_posts by blast
    show ?thesis
    proof (cases "Post_save (new_Post sub tu t) (concurrent_window w)")
      case (Inl e)
      with None Cons.prems have "w' = concurrent_window w" by (auto simp: Let_def)
      with n1 show ?thesis by auto
    next
      case (Inr w2)
      with None Cons.prems have run:
        "processSubscriptionTweets_loop sub tu ts (n + 1) w2 = (r, w')"
        by (simp add: Let_def)
      have w2: "posts w2 = posts w @ new1 @ [stamp (clock w) (new_Post sub tu t)]"
        "clock w2 = clock w" "concurrent w2 = concurrent (concurrent_window w)"
        using Post_save_Inr[OF Inr] n1 by simp_all
      have A: "set (posts w2) \<subseteq> set (posts w) \<union> set (concat (concurrent w)) \<union>
                 {stamp (clock w) (new_Post sub tu t)}"
        using w2(1) n1(2) by auto
      have B: "set (concat (concurrent w2)) \<subseteq> set (concat (concurrent w))"
        using concurrent_window_pool[of w] by (simp only: w2(3))
      have "set (posts w') \<subseteq> set (posts w2) \<union> set (concat (concurrent w2)) \<union>
              (\<lambda>t. stamp (clock w) (new_Post sub tu t)) ` set ts"
        using Cons.IH[OF run] by (simp only: w2(2))
      with A B have "set (posts w') \<subseteq> set (posts w) \<union> set (concat (concurrent w)) \<union>
              ({stamp (clock w) (new_Post sub tu t)} \<union>
               (\<lambda>t. stamp (clock w) (new_Post sub tu t)) ` set ts)"
        by blast
      then show ?thesis by (simp only: list.set image_insert insert_is_Un[symmetric])
    qed
  qed
qed

lemma find_update_first:
  "(\<And>x. P (f x) = P x) \<Longrightarrow> find P (update_first P f xs) = map_option f (find P xs)"
  by (induction xs) auto

lemma map_update_first:
  "(\<And>x. g (f x) = g x) \<Longrightarrow> map g (update_first P f xs) = map g xs"
  by (induction xs) auto

lemma length_update_first [simp]: "length (update_first P f xs) = length xs"
  by (induction xs) auto

lemma advance_checkpoint_subscriptions:
  "subscriptions (advance_checkpoint sub w) =
     update_first (\<lambda>s. s_id s = s_id sub)
       (\<lambda>s. s\<lparr>s_lastChecked := clock w, s_updatedAt := Some (clock w)\<rparr>) (subscriptions w)"
  by (simp add: advance_checkpoint_def Subscription_findOneAndUpdate_def Let_def)

lemma checkpoint_advance:
  "checkpoint (s_id sub) (advance_checkpoint sub w) =
     map_option (\<lambda>old. clock w) (checkpoint (s_id sub) w)"
proof -
  have "find (\<lambda>s. s_id s = s_id sub)
          (update_first (\<lambda>s. s_id s = s_id sub)
             (\<lambda>s. s\<lparr>s_lastChecked := clock w, s_updatedAt := Some (clock w)\<rparr>) (subscriptions w)) =
        map_option (\<lambda>s. s\<lparr>s_lastChecked := clock w, s_updatedAt := Some (clock w)\<rparr>)
          (find (\<lambda>s. s_id s = s_id sub) (subscriptions w))"
    by (rule find_update_first) simp
  then show ?thesis
    by (simp add: checkpoint_def advance_checkpoint_subscriptions option.map_comp comp_def)
qed

lemma checkpoint_cong:
  "subscriptions w' = subscriptions w \<Longrightarrow> checkpoint sid w' = checkpoint sid w"
  by (simp add: checkpoint_def)

lemma getUserTweets_same_source:
  assumes "o_keywords o2 = o_keywords o1"
    and "userTimeline ext uid (timelineParams o2) = userTimeline ext uid (timelineParams o1)"
  shows "getUserTweets ext uid o2 = getUserTweets ext uid o1"
  using assms by (simp add: getUserTweets_def)

lemma fetchedTweets_eq:
  "getUserByUsername ext (s_targetUsername sub) = Inr (Some tu) \<Longrightarrow>
   getUserTweets ext (uv_id tu) (subscriptionOptions sub) = Inr tweets \<Longrightarrow>
   fetchedTweets ext sub = tweets"
  by (simp add: fetchedTweets_def)

lemma process_success_state:
  assumes "processSubscriptionTweets ext sub w = (Inr n, w')"
  obtains w1 where
    "processSubscriptionTweets_loop sub
       (case getUserByUsername ext (s_targetUsername sub) of Inr (Some tu) \<Rightarrow> tu)
       (fetchedTweets ext sub) 0 w = (Inr n, w1)"
    "w' = advance_checkpoint sub w1"
    "\<exists>tu. getUserByUsername ext (s_targetUsername sub) = Inr (Some tu)"
proof -
  from assms obtain tu tweets w1 where
    a: "getUserByUsername ext (s_targetUsername sub) = Inr (Some tu)"
    "getUserTweets ext (uv_id tu) (subscriptionOptions sub) = Inr tweets"
    "processSubscriptionTweets_loop sub tu tweets 0 w = (Inr n, w1)"
    "w' = advance_checkpoint sub w1"
    by (rule process_Inr)
  with fetchedTweets_eq[OF a(1,2)] that show ?thesis by simp
qed

lemma process_success_present:
  assumes "processSubscriptionTweets ext sub w = (Inr n, w')"
  shows "\<forall>t\<in>set (fetchedTweets ext sub). t_id t \<in> p_tweetId ` set (posts w')"
proof -
  from assms obtain w1 tu where
    "processSubscriptionTweets_loop sub tu (fetchedTweets ext sub) 0 w = (Inr n, w1)"
    "w' = advance_checkpoint sub w1"
    by (rule process_success_state) blast
  with loop_success_present show ?thesis by fastforce
qed

lemma char_toLowerCase_idem [simp]:
  "char_toLowerCase (char_toLowerCase c) = char_toLowerCase c"
  by (auto simp: char_toLowerCase_def Let_def)

lemma isWhiteSpace_toLowerCase [simp]:
  "isWhiteSpace (char_toLowerCase c) = isWhiteSpace c"
  by (auto simp: char_toLowerCase_def isWhiteSpace_def Let_def)

lemma toLowerCase_idem [simp]: "toLowerCase (toLowerCase s) = toLowerCase s"
  by (simp add: toLowerCase_def)

lemma toLowerCase_dropWhile:
  "toLowerCase (dropWhile isWhiteSpace s) = dropWhile isWhiteSpace (toLowerCase s)"
  by (induction s) (simp_all add: toLowerCase_def)

lemma toLowerCase_trim: "toLowerCase (trim s) = trim (toLowerCase s)"
proof -
  have "toLowerCase (rev (dropWhile isWhiteSpace (rev (dropWhile isWhiteSpace s)))) =
        rev (toLowerCase (dropWhile isWhiteSpace (rev (dropWhile isWhiteSpace s))))"
    by (simp add: toLowerCase_def rev_map)
  also have "\<dots> = rev (dropWhile isWhiteSpace (toLowerCase (rev (dropWhile isWhiteSpace s))))"
    by (simp only: toLowerCase_dropWhile)
  also have "toLowerCase (rev (dropWhile isWhiteSpace s)) =
             rev (dropWhile isWhiteSpace (toLowerCase s))"
    by (simp add: toLowerCase_def rev_map flip: toLowerCase_dropWhile[unfolded toLowerCase_def])
  finally show ?thesis by (simp add: trim_def)
qed

lemma dropWhile_trim: "dropWhile isWhiteSpace (trim s) = trim s"
proof (cases "trim s")
  case Nil
  then show ?thesis by simp
next
  case (Cons c cs)
  let ?X = "dropWhile isWhiteSpace s"
  have split: "?X = trim s @ rev (takeWhile isWhiteSpace (rev ?X))"
  proof -
    have "rev (trim s @ rev (takeWhile isWhiteSpace (rev ?X))) =
          takeWhile isWhiteSpace (rev ?X) @ dropWhile isWhiteSpace (rev ?X)"
      by (simp add: trim_def)
    then have "rev (trim s @ rev (takeWhile isWhiteSpace (rev ?X))) = rev ?X"
      by simp
    then show ?thesis by (simp only: rev_is_rev_conv)
  qed
  with Cons have X: "?X = c # (cs @ rev (takeWhile isWhiteSpace (rev ?X)))" by simp
  have "?X \<noteq> []" using X by (metis list.distinct(1))
  moreover have "hd ?X = c" using X by (metis list.sel(1))
  ultimately have "\<not> isWhiteSpace c" using hd_dropWhile[of isWhiteSpace s] by metis
  with Cons show ?thesis by simp
qed

lemma trim_idem [simp]: "trim (trim s) = trim s"
proof -
  have "rev (trim s) = dropWhile isWhiteSpace (rev (dropWhile isWhiteSpace s))"
    by (simp add: trim_def)
  then have "dropWhile isWhiteSpace (rev (trim s)) = rev (trim s)"
    by simp
  then have "trim (trim s) = rev (rev (trim s))"
    unfolding trim_def[of "trim s"] by (simp only: dropWhile_trim)
  then show ?thesis by simp
qed

lemma normalise_idem:
  "trim (toLowerCase (toLowerCase (trim raw))) = toLowerCase (trim raw)"
  by (simp add: toLowerCase_trim)

lemma normalise_idem':
  "trim (toLowerCase (trim (toLowerCase raw))) = trim (toLowerCase raw)"
  by (simp add: toLowerCase_trim)

lemmas demo_defs = ext_demo_def sub_demo_def w_demo_def w_race_def account_def tweet_launch_def
  tweet_reply_def tweet_blank_def user_demo_def

lemmas run_defs = processSubscriptionTweets_def getUserByUsername_def getUserTweets_def
  subscriptionOptions_def timelineParams_def toTweetData_def Post_findOne_tweetId_def
  new_Post_def Post_save_def Post_validate_def concurrent_window_def commit_concurrent_def
  Subscription_findOneAndUpdate_def extractMediaUrls_def formatTweetUrl_def toLowerCase_def
  trim_def char_toLowerCase_def isWhiteSpace_def stamp_def DuplicateKey_def ValidationError_def
  getUserTweets_catch_def checkpoint_def fetchedTweets_def Let_def

lemma race_run:
  "processSubscriptionTweets ext_demo (sub_demo 10 ''acme'') w_race =
     (Inl DuplicateKey, concurrent_window w_race)"
  by (simp add: demo_defs run_defs)

lemma race_window:
  "checkpoint 10 (concurrent_window w_race) = Some 1000"
  "map p_tweetId (posts (concurrent_window w_race)) = [''t1'']"
  by (simp_all add: demo_defs run_defs)

lemma process_rows_origin:
  assumes "processSubscriptionTweets ext sub w = (r, w')"
  shows "set (posts w') \<subseteq> set (posts w) \<union> set (concat (concurrent w)) \<union>
           (\<Union>tu\<in>{tu. getUserByUsername ext (s_targetUsername sub) = Inr (Some tu)}.
              (\<lambda>t. stamp (clock w) (new_Post sub tu t)) ` set (fetchedTweets ext sub))"
proof (cases r)
  case (Inl e)
  from process_Inl[OF assms[unfolded Inl]] consider
      "w' = w"
    | tu tweets where "getUserByUsername ext (s_targetUsername sub) = Inr (Some tu)"
        "getUserTweets ext (uv_id tu) (subscriptionOptions sub) = Inr tweets"
        "processSubscriptionTweets_loop sub tu tweets 0 w = (Inl e, w')"
    by blast
  then show ?thesis
  proof cases
    case 1
    then show ?thesis by auto
  next
    case 2
    from loop_rows_origin[OF 2(3)] fetchedTweets_eq[OF 2(1,2)] 2(1) show ?thesis by auto
  qed
next
  case (Inr n)
  with assms obtain tu tweets w1 where
    a: "getUserByUsername ext (s_targetUsername sub) = Inr (Some tu)"
    "getUserTweets ext (uv_id tu) (subscriptionOptions sub) = Inr tweets"
    "processSubscriptionTweets_loop sub tu tweets 0 w = (Inr n, w1)"
    "w' = advance_checkpoint sub w1"
    by (auto elim: process_Inr)
  from loop_rows_origin[OF a(3)] fetchedTweets_eq[OF a(1,2)] a(1,4) show ?thesis by auto
qed

lemma new_Post_fields:
  "p_authorUsername (stamp now (new_Post sub tu t)) = trim (toLowerCase (s_targetUsername sub))"
  "p_subscriptionId (stamp now (new_Post sub tu t)) = s_id sub"
  "p_userId (stamp now (new_Post sub tu t)) = s_userId sub"
  "p_tweetId (stamp now (new_Post sub tu t)) = t_id t"
  by (simp_all add: stamp_def new_Post_def Let_def)

lemma new_Post_flags:
  "p_isReply (stamp now (new_Post sub tu t)) \<longleftrightarrow>
     (\<exists>refs. t_referenced_tweets t = Some refs \<and> (\<exists>ref\<in>set refs. ref_type ref = ''replied_to''))"
  "p_isRetweet (stamp now (new_Post sub tu t)) \<longleftrightarrow>
     (\<exists>refs. t_referenced_tweets t = Some refs \<and> (\<exists>ref\<in>set refs. ref_type ref = ''retweeted''))"
  by (auto simp: stamp_def new_Post_def Let_def list_ex_iff split: option.splits)

lemma acme_run:
  "processSubscriptionTweets ext_demo (sub_demo 10 ''acme'') (w_demo [sub_demo 10 ''acme'']) =
     (Inr 2,
      \<lparr>users = [user_demo],
       subscriptions = [(sub_demo 10 ''acme'')\<lparr>s_lastChecked := 5000000, s_updatedAt := Some 5000000\<rparr>],
       posts = [stamp 5000000 (new_Post (sub_demo 10 ''acme'') (account ''42'' ''acme'') tweet_launch),
                stamp 5000000 (new_Post (sub_demo 10 ''acme'') (account ''42'' ''acme'') tweet_reply)],
       clock = 5000000, nextId = 20, concurrent = []\<rparr>)"
  by (simp add: demo_defs run_defs)

lemma acme_fetched:
  "fetchedTweets ext_demo (sub_demo 10 ''acme'') = [tweet_launch, tweet_reply]"
  by (simp add: demo_defs run_defs)

lemma process_clock:
  assumes "processSubscriptionTweets ext sub w = (r, w')"
  shows "clock w' = clock w"
proof (cases r)
  case (Inl e)
  with assms process_failure_frame show ?thesis by blast
next
  case (Inr n)
  with assms obtain tu tweets w1 where
    "processSubscriptionTweets_loop sub tu tweets 0 w = (Inr n, w1)" "w' = advance_checkpoint sub w1"
    by (auto elim: process_Inr)
  with loop_frame show ?thesis by fastforce
qed

lemma is_due_mono: "is_due s w \<Longrightarrow> clock w \<le> clock w' \<Longrightarrow> is_due s w'"
  by (simp add: is_due_def)

lemma batch_step_due:
  "processAllUserSubscriptions_loop ext (s # rest) r w =
     (if is_due s w then
        (case processSubscriptionTweets ext s w of
           (Inr count, w') \<Rightarrow>
             processAllUserSubscriptions_loop ext rest
               (r\<lparr>newTweets := newTweets r + count, processed := processed r + 1\<rparr>)
               (delay 1000 w')
         | (Inl e, w') \<Rightarrow>
             processAllUserSubscriptions_loop ext rest
               (r\<lparr>errors := errors r @ [s_targetUsername s @ '': '' @ err_message e]\<rparr>) w')
      else processAllUserSubscriptions_loop ext rest r w)"
  by (simp add: is_due_def Let_def)

lemma batch_append:
  "processAllUserSubscriptions_loop ext (xs @ ys) r w =
     (case processAllUserSubscriptions_loop ext xs r w of
        (r1, w1) \<Rightarrow> processAllUserSubscriptions_loop ext ys r1 w1)"
proof (induction xs arbitrary: r w)
  case Nil
  then show ?case by simp
next
  case (Cons x xs)
  show ?case
    unfolding append_Cons batch_step_due[of ext x]
    by (simp add: Cons.IH split: prod.splits sum.splits)
qed

lemma batch_count:
  "\<forall>s\<in>set subs. is_due s w \<Longrightarrow>
     processed (fst (processAllUserSubscriptions_loop ext subs r w)) +
     length (errors (fst (processAllUserSubscriptions_loop ext subs r w))) =
     processed r + length (errors r) + length subs"
proof (induction subs arbitrary: r w)
  case Nil
  then show ?case by simp
next
  case (Cons s subs)
  then have due: "is_due s w" and rest: "\<forall>x\<in>set subs. is_due x w" by simp_all
  obtain res w' where run: "processSubscriptionTweets ext s w = (res, w')"
    by (cases "processSubscriptionTweets ext s w")
  have clk: "clock w' = clock w" using run by (rule process_clock)
  show ?case
  proof (cases res)
    case (Inl e)
    have "\<forall>x\<in>set subs. is_due x w'"
      using rest clk by (auto intro: is_due_mono)
    from Cons.IH[OF this, of "r\<lparr>errors := errors r @ [s_targetUsername s @ '': '' @ err_message e]\<rparr>"]
    show ?thesis
      unfolding batch_step_due[of ext s] using due run Inl by simp
  next
    case (Inr n)
    have "\<forall>x\<in>set subs. is_due x (delay 1000 w')"
      using rest clk by (auto intro: is_due_mono simp: delay_def)
    from Cons.IH[OF this, of "r\<lparr>newTweets := newTweets r + n, processed := processed r + 1\<rparr>"]
    show ?thesis
      unfolding batch_step_due[of ext s] using due run Inr by simp
  qed
qed

lemma alternatives_no_bar: "CHR ''|'' \<notin> set k \<Longrightarrow> alternatives k = [k]"
  by (induction k) auto

lemma alternatives_bar:
  "CHR ''|'' \<notin> set k \<Longrightarrow> alternatives (k @ CHR ''|'' # rest) = k # alternatives rest"
  by (induction k) auto

lemma alternatives_join:
  "ks \<noteq> [] \<Longrightarrow> \<forall>k\<in>set ks. CHR ''|'' \<notin> set k \<Longrightarrow> alternatives (join ''|'' ks) = ks"
proof (induction ks rule: induct_list012)
  case 1
  then show ?case by simp
next
  case (2 x)
  then show ?case by (simp add: alternatives_no_bar)
next
  case (3 x y ys)
  then have "alternatives (join ''|'' (y # ys)) = y # ys" by simp
  moreover have "CHR ''|'' \<notin> set x" using 3 by simp
  ultimately show ?case by (simp add: alternatives_bar)
qed

lemma literal_keyword_no_bar: "literal_keyword k \<Longrightarrow> CHR ''|'' \<notin> set k"
  by (auto simp: literal_keyword_def isSyntaxCharacter_def list_all_iff)

lemma alternation_pattern_append:
  "alternation_pattern (xs @ ys) \<longleftrightarrow> alternation_pattern xs \<and> alternation_pattern ys"
  by (simp add: alternation_pattern_def)

lemma literal_alternation: "literal_keyword k \<Longrightarrow> alternation_pattern k"
  by (auto simp: literal_keyword_def alternation_pattern_def list_all_iff)

lemma alternation_pattern_join:
  "\<forall>k\<in>set ks. literal_keyword k \<Longrightarrow> alternation_pattern (join ''|'' ks)"
proof (induction ks rule: induct_list012)
  case 1
  then show ?case by (simp add: alternation_pattern_def)
next
  case (2 x)
  then show ?case by (simp add: literal_alternation)
next
  case (3 x y ys)
  then have "alternation_pattern (join ''|'' (y # ys))" by simp
  moreover have "alternation_pattern x" using 3 by (simp add: literal_alternation)
  moreover have "alternation_pattern (CHR ''|'' # rest) \<longleftrightarrow> alternation_pattern rest" for rest
    by (simp add: alternation_pattern_def isASCII_def)
  ultimately show ?case by (simp add: alternation_pattern_append)
qed

lemma keywords_regex:
  assumes "conforming_engine ext" "ks \<noteq> []" "\<forall>k\<in>set ks. literal_keyword k"
  shows "RegExp_i ext (join ''|'' ks) = Inr (\<lambda>txt. \<exists>k\<in>set ks. includes_i txt k)"
proof -
  have "RegExp_i ext (join ''|'' ks) = Inr (test_alternation_i (join ''|'' ks))"
    using assms(1) alternation_pattern_join[OF assms(3)] by (simp add: conforming_engine_def)
  moreover have "alternatives (join ''|'' ks) = ks"
    using assms(2,3) by (intro alternatives_join) (auto dest: literal_keyword_no_bar)
  ultimately show ?thesis
    by (simp add: test_alternation_i_def[abs_def] list_ex_iff)
qed

lemma ext_demo_conforming: "conforming_engine ext_demo"
  by (simp add: conforming_engine_def ext_demo_def)

lemma process_subscriptions_view:
  assumes run: "processSubscriptionTweets ext sub w = (r, w')"
    and g: "\<And>s a b. g (s\<lparr>s_lastChecked := a, s_updatedAt := b\<rparr>) = g s"
  shows "map g (subscriptions w') = map g (subscriptions w)"
proof (cases r)
  case (Inl e)
  with run process_failure_frame[of ext sub w e w'] show ?thesis by simp
next
  case (Inr n)
  with run obtain tu tweets w1 where
    loop: "processSubscriptionTweets_loop sub tu tweets 0 w = (Inr n, w1)"
    and w': "w' = advance_checkpoint sub w1"
    by (auto elim: process_Inr)
  from loop_frame[OF loop] have "subscriptions w1 = subscriptions w" by simp
  then show ?thesis
    unfolding w' advance_checkpoint_subscriptions
    by (simp add: map_update_first g)
qed

lemma process_nextId:
  assumes "processSubscriptionTweets ext sub w = (r, w')"
  shows "nextId w' = nextId w"
proof (cases r)
  case (Inl e)
  with assms process_failure_frame show ?thesis by blast
next
  case (Inr n)
  with assms obtain tu tweets w1 where
    "processSubscriptionTweets_loop sub tu tweets 0 w = (Inr n, w1)" "w' = advance_checkpoint sub w1"
    by (auto elim: process_Inr)
  with loop_frame show ?thesis by fastforce
qed

lemma batch_loop_view:
  assumes g: "\<And>s a b. g (s\<lparr>s_lastChecked := a, s_updatedAt := b\<rparr>) = g s"
  shows "map g (subscriptions (snd (processAllUserSubscriptions_loop ext subs r w))) =
           map g (subscriptions w) \<and>
         nextId (snd (processAllUserSubscriptions_loop ext subs r w)) = nextId w"
proof (induction subs arbitrary: r w)
  case Nil
  then show ?case by simp
next
  case (Cons s subs)
  obtain res w' where run: "processSubscriptionTweets ext s w = (res, w')"
    by (cases "processSubscriptionTweets ext s w")
  have v: "map g (subscriptions w') = map g (subscriptions w)"
    using run g by (rule process_subscriptions_view)
  have n: "nextId w' = nextId w" using run by (rule process_nextId)
  show ?case
  proof (cases "is_due s w")
    case False
    then show ?thesis unfolding batch_step_due[of ext s] using Cons.IH by simp
  next
    case True
    show ?thesis
    proof (cases res)
      case (Inl e)
      with True run v n Cons.IH show ?thesis
        unfolding batch_step_due[of ext s] by simp
    next
      case (Inr c)
      with True run v n
        Cons.IH[of "r\<lparr>newTweets := newTweets r + c, processed := processed r + 1\<rparr>" "delay 1000 w'"]
      show ?thesis
        unfolding batch_step_due[of ext s] by (simp add: delay_def)
    qed
  qed
qed

lemma batch_view:
  assumes g: "\<And>s a b. g (s\<lparr>s_lastChecked := a, s_updatedAt := b\<rparr>) = g s"
  shows "map g (subscriptions (snd (processAllUserSubscriptions ext userId w))) =
           map g (subscriptions w) \<and>
         nextId (snd (processAllUserSubscriptions ext userId w)) = nextId w"
  unfolding processAllUserSubscriptions_def Let_def using batch_loop_view[of g, OF g] by blast

lemma createForUser_delay [simp]: "createForUser ext (delay ms w) uid = createForUser ext w uid"
  by (simp add: createForUser_def delay_def)

lemma scheduled_loop_view:
  assumes g: "\<And>s a b. g (s\<lparr>s_lastChecked := a, s_updatedAt := b\<rparr>) = g s"
  shows "map g (subscriptions (scheduled_loop ext us w)) = map g (subscriptions w) \<and>
         nextId (scheduled_loop ext us w) = nextId w"
proof (induction us arbitrary: w)
  case Nil
  then show ?case by simp
next
  case (Cons u us)
  show ?case
  proof (cases "createForUser ext w (u_id u)")
    case None
    with Cons.IH[of "delay 2000 w"] show ?thesis by (simp add: delay_def)
  next
    case (Some svc)
    with Cons.IH[of "delay 2000 (snd (processAllUserSubscriptions ext (u_id u) w))"]
      batch_view[of g ext "u_id u" w, OF g]
    show ?thesis by (simp add: delay_def)
  qed
qed

lemma refresh_view:
  assumes g: "\<And>s a b. g (s\<lparr>s_lastChecked := a, s_updatedAt := b\<rparr>) = g s"
  shows "map g (subscriptions (snd (refreshSubscription ext sid uid w))) = map g (subscriptions w) \<and>
         nextId (snd (refreshSubscription ext sid uid w)) = nextId w"
proof (cases "find (\<lambda>s. s_id s = sid \<and> s_userId s = uid) (subscriptions w)")
  case None
  then show ?thesis by (simp add: refreshSubscription_def)
next
  case (Some sub)
  show ?thesis
  proof (cases "createForUser ext w uid")
    case None
    with Some show ?thesis by (simp add: refreshSubscription_def)
  next
    case svc: (Some svc)
    obtain res w' where run: "processSubscriptionTweets ext sub w = (res, w')"
      by (cases "processSubscriptionTweets ext sub w")
    from process_subscriptions_view[OF run g] process_nextId[OF run] Some svc run
    show ?thesis by (cases res) (simp_all add: refreshSubscription_def)
  qed
qed

lemma delete_subscriptions:
  "subscriptions (snd (deleteSubscription sid uid w)) =
     update_first (\<lambda>s. s_id s = sid \<and> s_userId s = uid)
       (\<lambda>s. s\<lparr>s_isActive := False, s_updatedAt := Some (clock w)\<rparr>) (subscriptions w)"
  "posts (snd (deleteSubscription sid uid w)) = posts w"
  "users (snd (deleteSubscription sid uid w)) = users w"
  "nextId (snd (deleteSubscription sid uid w)) = nextId w"
  "clock (snd (deleteSubscription sid uid w)) = clock w"
  by (simp_all add: deleteSubscription_def Subscription_findOneAndUpdate_def Let_def
      split: option.splits)

text \<open>What a create request can do to the state.\<close>

lemma createSubscription_cases:
  assumes "createSubscription ext uid body w = (resp, w')"
  obtains (unchanged) "w' = w" "status resp \<noteq> 200" "status resp \<noteq> 201"
  | (rejected) "w' = w\<lparr>nextId := nextId w + 1\<rparr>" "status resp = 500"
      "find (\<lambda>s. s_userId s = uid \<and> s_targetUsername s = toLowerCase (trim (b_targetUsername body)))
         (subscriptions w) = None"
  | (reactivated) old where
      "find (\<lambda>s. s_userId s = uid \<and> s_targetUsername s = toLowerCase (trim (b_targetUsername body)))
         (subscriptions w) = Some old"
      "\<not> s_isActive old" "status resp = 200"
      "Subscription_save_reactivated
         (old\<lparr>s_isActive := True,
              s_checkInterval := (case b_checkInterval body of None \<Rightarrow> 60 | Some i \<Rightarrow> i),
              s_keywords := map trim (case b_keywords body of None \<Rightarrow> [] | Some ks \<Rightarrow> ks),
              s_includeReplies := (case b_includeReplies body of None \<Rightarrow> False | Some b \<Rightarrow> b),
              s_includeRetweets := (case b_includeRetweets body of None \<Rightarrow> False | Some b \<Rightarrow> b),
              s_lastChecked := clock w\<rparr>) w = Inr w'"
  | (inserted)
      "find (\<lambda>s. s_userId s = uid \<and> s_targetUsername s = toLowerCase (trim (b_targetUsername body)))
         (subscriptions w) = None"
      "Subscription_save_new
         \<lparr>s_id = nextId w, s_userId = uid,
          s_targetUsername = trim (toLowerCase (toLowerCase (trim (b_targetUsername body)))),
          s_isActive = True,
          s_checkInterval = (case b_checkInterval body of None \<Rightarrow> 60 | Some i \<Rightarrow> i),
          s_lastChecked = clock w,
          s_keywords = map trim (case b_keywords body of None \<Rightarrow> [] | Some ks \<Rightarrow> ks),
          s_includeReplies = (case b_includeReplies body of None \<Rightarrow> False | Some b \<Rightarrow> b),
          s_includeRetweets = (case b_includeRetweets body of None \<Rightarrow> False | Some b \<Rightarrow> b),
          s_createdAt = None, s_updatedAt = None\<rparr>
         (w\<lparr>nextId := nextId w + 1\<rparr>) = Inr w'"
proof (cases "find (\<lambda>s. s_userId s = uid \<and>
                       s_targetUsername s = toLowerCase (trim (b_targetUsername body)))
                (subscriptions w)")
  case None
  with assms unchanged rejected inserted show ?thesis
    unfolding createSubscription_def Let_def
    by (simp split: if_splits option.splits sum.splits) auto
next
  case (Some old)
  with assms unchanged reactivated[of old] show ?thesis
    unfolding createSubscription_def Let_def
    by (simp split: if_splits option.splits sum.splits) auto
qed

lemma static_views:
  "map s_id xs = map fst (map sub_static xs)"
  "map sub_key xs = map (fst \<circ> snd) (map sub_static xs)"
  "map s_checkInterval xs = map (snd \<circ> snd) (map sub_static xs)"
  by (simp_all add: sub_static_def comp_def)

lemma invariants_cong:
  assumes "map sub_static (subscriptions w') = map sub_static (subscriptions w)"
    and "nextId w' = nextId w"
  shows "subscription_invariant w' = subscription_invariant w" "ids_fresh w' = ids_fresh w"
  using assms unfolding subscription_invariant_def ids_fresh_def static_views by simp_all

lemma sub_static_checkpoint [simp]:
  "sub_static (s\<lparr>s_lastChecked := a, s_updatedAt := b\<rparr>) = sub_static s"
  by (simp add: sub_static_def sub_key_def)

lemma save_new_invariants:
  assumes save: "Subscription_save_new s (w\<lparr>nextId := nextId w + 1\<rparr>) = Inr w'"
    and id: "s_id s = nextId w"
    and inv: "subscription_invariant w" "ids_fresh w"
  shows "subscription_invariant w' \<and> ids_fresh w'"
proof -
  from save have valid: "Subscription_validate s"
    and new: "sub_key s \<notin> sub_key ` set (subscriptions w)"
    and w': "w' = w\<lparr>nextId := nextId w + 1,
                    subscriptions := subscriptions w @
                      [s\<lparr>s_createdAt := Some (clock w), s_updatedAt := Some (clock w)\<rparr>]\<rparr>"
    by (auto simp: Subscription_save_new_def sub_key_def[abs_def] split: if_splits)
  have a: "subscription_invariant w'"
    using inv(1) valid new
    by (auto simp: w' subscription_invariant_def Subscription_validate_def sub_key_def)
  have "s_id s \<notin> s_id ` set (subscriptions w)"
    using inv(2) id by (auto simp: ids_fresh_def list_all_iff)
  then have b: "ids_fresh w'"
    using inv(2) id by (auto simp: w' ids_fresh_def list_all_iff)
  from a b show ?thesis ..
qed

lemma save_reactivated_invariants:
  assumes save: "Subscription_save_reactivated s w = Inr w'"
    and inv: "subscription_invariant w" "ids_fresh w"
  shows "subscription_invariant w' \<and> ids_fresh w'"
proof -
  let ?f = "\<lambda>r. r\<lparr>s_isActive := s_isActive s, s_checkInterval := s_checkInterval s,
                  s_keywords := s_keywords s, s_includeReplies := s_includeReplies s,
                  s_includeRetweets := s_includeRetweets s,
                  s_lastChecked := s_lastChecked s, s_updatedAt := Some (clock w)\<rparr>"
  from save have ok: "15 \<le> s_checkInterval s" "s_checkInterval s \<le> 1440"
    and w': "w' = w\<lparr>subscriptions := update_first (\<lambda>r. s_id r = s_id s) ?f (subscriptions w)\<rparr>"
    by (auto simp: Subscription_save_reactivated_def split: if_splits)
  have keys: "map sub_key (subscriptions w') = map sub_key (subscriptions w)"
    unfolding w' by (simp add: map_update_first sub_key_def)
  have ids: "map s_id (subscriptions w') = map s_id (subscriptions w)"
    unfolding w' by (simp add: map_update_first)
  have "set (update_first P ?f xs) \<subseteq> set xs \<union> ?f ` set xs" for P xs
    by (induction xs) auto
  then have "\<forall>r\<in>set (subscriptions w'). 15 \<le> s_checkInterval r \<and> s_checkInterval r \<le> 1440"
    using inv(1) ok unfolding w'
    by (fastforce simp: subscription_invariant_def list_all_iff)
  with keys inv(1) have a: "subscription_invariant w'"
    by (simp add: subscription_invariant_def list_all_iff)
  have b: "ids_fresh w'"
    using inv(2) ids by (simp add: ids_fresh_def w')
  from a b show ?thesis ..
qed

lemma create_invariants:
  assumes inv: "subscription_invariant w" "ids_fresh w"
  shows "subscription_invariant (snd (createSubscription ext uid body w)) \<and>
         ids_fresh (snd (createSubscription ext uid body w))"
proof -
  obtain resp w' where run: "createSubscription ext uid body w = (resp, w')"
    by (cases "createSubscription ext uid body w")
  from run have "subscription_invariant w' \<and> ids_fresh w'"
  proof (cases rule: createSubscription_cases)
    case unchanged
    with inv show ?thesis by simp
  next
    case rejected
    with inv show ?thesis
      by (auto simp: subscription_invariant_def ids_fresh_def list_all_iff)
  next
    case (reactivated old)
    from save_reactivated_invariants[OF reactivated(4) inv] show ?thesis .
  next
    case inserted
    from save_new_invariants[OF inserted(2) _ inv] show ?thesis by simp
  qed
  with run show ?thesis by simp
qed

lemma seed_subscriptions_invariants:
  "subscription_invariant w \<Longrightarrow> ids_fresh w \<Longrightarrow>
     subscription_invariant (snd (createTestTweets_subscriptions uid names w)) \<and>
     ids_fresh (snd (createTestTweets_subscriptions uid names w))"
proof (induction names arbitrary: w)
  case Nil
  then show ?case by simp
next
  case (Cons n names)
  show ?case
  proof (cases "find (\<lambda>s. s_userId s = uid \<and> s_targetUsername s = n) (subscriptions w)")
    case (Some s)
    with Cons show ?thesis by simp
  next
    case None
    let ?sub = "\<lparr>s_id = nextId w, s_userId = uid, s_targetUsername = trim (toLowerCase n),
                  s_isActive = True, s_checkInterval = 60,
                  s_lastChecked = clock w - 48 * 60 * 60 * 1000, s_keywords = [],
                  s_includeReplies = False, s_includeRetweets = False,
                  s_createdAt = None, s_updatedAt = None\<rparr>"
    show ?thesis
    proof (cases "Subscription_save_new ?sub (w\<lparr>nextId := nextId w + 1\<rparr>)")
      case (Inl e)
      with None Cons.prems show ?thesis
        by (auto simp: Let_def subscription_invariant_def ids_fresh_def list_all_iff)
    next
      case (Inr w')
      from save_new_invariants[OF Inr _ Cons.prems] have "subscription_invariant w' \<and> ids_fresh w'"
        by simp
      with Cons.IH[of w'] None Inr show ?thesis by (simp add: Let_def)
    qed
  qed
qed

lemma seed_posts_frame:
  "subscriptions (createTestTweets_posts rows w) = subscriptions w \<and>
   nextId (createTestTweets_posts rows w) = nextId w"
proof (induction rows arbitrary: w)
  case Nil
  then show ?case by simp
next
  case (Cons p rows)
  show ?case
  proof (cases "Post_save p w")
    case (Inl e)
    with Cons show ?thesis by simp
  next
    case (Inr w')
    with Cons.IH[of w'] Cons.IH[of w] Post_save_Inr[OF Inr] show ?thesis by simp
  qed
qed

lemma seed_invariants:
  assumes inv: "subscription_invariant w" "ids_fresh w"
  shows "subscription_invariant (createTestTweets rows w) \<and> ids_fresh (createTestTweets rows w)"
proof (cases "find (\<lambda>u. u_email u = ''test@example.com'') (users w)")
  case None
  with inv show ?thesis by (simp add: createTestTweets_def)
next
  case (Some user)
  obtain r w' where run:
    "createTestTweets_subscriptions (u_id user) [''elonmusk'', ''twitter''] w = (r, w')"
    by (cases "createTestTweets_subscriptions (u_id user) [''elonmusk'', ''twitter''] w")
  with seed_subscriptions_invariants[OF inv, of "u_id user" "[''elonmusk'', ''twitter'']"]
  have w': "subscription_invariant w'" "ids_fresh w'" by simp_all
  have "subscription_invariant (createTestTweets_posts rows w') \<and>
        ids_fresh (createTestTweets_posts rows w')"
    using w' seed_posts_frame[of rows w']
    by (simp add: subscription_invariant_def ids_fresh_def)
  with Some run w' show ?thesis
    by (cases r) (simp_all add: createTestTweets_def)
qed

lemma perform_invariants:
  assumes inv: "subscription_invariant w" "ids_fresh w"
  shows "subscription_invariant (perform ext ev w) \<and> ids_fresh (perform ext ev w)"
proof (cases ev)
  case (CreateSubscription uid body)
  with create_invariants[OF inv] show ?thesis by simp
next
  case (DeleteSubscription sid uid)
  have "map sub_static (subscriptions (snd (deleteSubscription sid uid w))) =
        map sub_static (subscriptions w)"
    by (simp add: delete_subscriptions map_update_first sub_static_def sub_key_def)
  from invariants_cong[OF this delete_subscriptions(4)] inv DeleteSubscription
  show ?thesis by simp
next
  case (RefreshSubscription sid uid)
  from refresh_view[of sub_static ext sid uid w] have
    "map sub_static (subscriptions (snd (refreshSubscription ext sid uid w))) =
       map sub_static (subscriptions w)"
    "nextId (snd (refreshSubscription ext sid uid w)) = nextId w"
    by simp_all
  from invariants_cong[OF this] inv RefreshSubscription show ?thesis by simp
next
  case (ProcessAllUserSubscriptions uid)
  from batch_view[of sub_static ext uid w] have
    "map sub_static (subscriptions (snd (processAllUserSubscriptions ext uid w))) =
       map sub_static (subscriptions w)"
    "nextId (snd (processAllUserSubscriptions ext uid w)) = nextId w"
    by simp_all
  from invariants_cong[OF this] inv ProcessAllUserSubscriptions show ?thesis by simp
next
  case ScheduledJob
  from scheduled_loop_view[of sub_static ext _ w] have
    "map sub_static (subscriptions (scheduled_job ext w)) = map sub_static (subscriptions w)"
    "nextId (scheduled_job ext w) = nextId w"
    by (simp_all add: scheduled_job_def)
  from invariants_cong[OF this] inv ScheduledJob show ?thesis by simp
next
  case (CreateTestTweets rows)
  with seed_invariants[OF inv] show ?thesis by simp
next
  case (AccountRoutes us)
  with inv show ?thesis by (simp add: subscription_invariant_def ids_fresh_def)
next
  case (Elapse ms)
  with inv show ?thesis by (simp add: subscription_invariant_def ids_fresh_def)
next
  case (Overlap rows)
  with inv show ?thesis by (simp add: subscription_invariant_def ids_fresh_def)
qed

lemma reachable_invariants: "reachable w \<Longrightarrow> subscription_invariant w \<and> ids_fresh w"
proof (induction rule: reachable.induct)
  case (initial w)
  then show ?case by (simp add: subscription_invariant_def ids_fresh_def)
next
  case (step w ext ev)
  then show ?case using perform_invariants by blast
qed

lemma create_existing:
  assumes found: "find (\<lambda>s. s_userId s = uid \<and>
                        s_targetUsername s = toLowerCase (trim (b_targetUsername body)))
                    (subscriptions w) = Some existing"
  shows "map s_id (subscriptions (snd (createSubscription ext uid body w))) =
           map s_id (subscriptions w) \<and>
         status (fst (createSubscription ext uid body w)) \<noteq> 201 \<and>
         (s_isActive existing \<longrightarrow>
            snd (createSubscription ext uid body w) = w \<and>
            status (fst (createSubscription ext uid body w)) \<noteq> 200)"
proof -
  obtain resp w' where run: "createSubscription ext uid body w = (resp, w')"
    by (cases "createSubscription ext uid body w")
  from run have "map s_id (subscriptions w') = map s_id (subscriptions w) \<and> status resp \<noteq> 201 \<and>
      (s_isActive existing \<longrightarrow> w' = w \<and> status resp \<noteq> 200)"
  proof (cases rule: createSubscription_cases)
    case unchanged
    then show ?thesis by simp
  next
    case rejected
    with found show ?thesis by simp
  next
    case (reactivated old)
    with found have "old = existing" by simp
    moreover from reactivated(4) have "map s_id (subscriptions w') = map s_id (subscriptions w)"
      by (auto simp: Subscription_save_reactivated_def map_update_first split: if_splits)
    ultimately show ?thesis using reactivated(2,3) by simp
  next
    case inserted
    with found show ?thesis by simp
  qed
  with run show ?thesis by simp
qed

lemma update_first_split:
  "\<forall>y\<in>set pre. \<not> P y \<Longrightarrow> P x \<Longrightarrow> update_first P f (pre @ x # post) = pre @ f x # post"
  by (induction pre) auto

lemma update_first_found:
  "find P xs = Some x \<Longrightarrow> f x \<in> set (update_first P f xs)"
  by (induction xs) (auto split: if_splits)

lemma find_split_distinct:
  assumes "find Q xs = Some old" "distinct (map s_id xs)"
  shows "\<exists>pre post. xs = pre @ old # post \<and> (\<forall>y\<in>set pre. s_id y \<noteq> s_id old)"
proof -
  from assms(1) have "old \<in> set xs"
    by (auto simp: find_Some_iff)
  then obtain pre post where xs: "xs = pre @ old # post"
    by (auto dest: split_list)
  with assms(2) have "s_id old \<notin> s_id ` set pre"
    by simp
  then have "\<forall>y\<in>set pre. s_id y \<noteq> s_id old"
    by (metis imageI)
  with xs show ?thesis by blast
qed

lemma delete_result:
  "deleteSubscription sid uid w = (resp, w') \<Longrightarrow> status resp = 200 \<Longrightarrow>
     \<exists>s. find (\<lambda>s. s_id s = sid \<and> s_userId s = uid) (subscriptions w) = Some s"
  by (auto simp: deleteSubscription_def Subscription_findOneAndUpdate_def Let_def
      split: option.splits)

lemma reactivate_run:
  assumes valid: "b_targetUsername body \<noteq> []"
      "\<forall>i. b_checkInterval body = Some i \<longrightarrow> 15 \<le> i \<and> i \<le> 1440"
    and service: "createForUser ext w uid \<noteq> None"
    and account: "getUserByUsername ext (toLowerCase (trim (b_targetUsername body))) = Inr tu"
    and found: "find (\<lambda>s. s_userId s = uid \<and>
                         s_targetUsername s = toLowerCase (trim (b_targetUsername body)))
                  (subscriptions w) = Some old"
    and inactive: "\<not> s_isActive old"
  shows "createSubscription ext uid body w =
           (Response 200 (SubscriptionBody
              (old\<lparr>s_isActive := True,
                   s_checkInterval := (case b_checkInterval body of None \<Rightarrow> 60 | Some i \<Rightarrow> i),
                   s_keywords := map trim (case b_keywords body of None \<Rightarrow> [] | Some ks \<Rightarrow> ks),
                   s_includeReplies := (case b_includeReplies body of None \<Rightarrow> False | Some b \<Rightarrow> b),
                   s_includeRetweets := (case b_includeRetweets body of None \<Rightarrow> False | Some b \<Rightarrow> b),
                   s_lastChecked := clock w, s_updatedAt := Some (clock w)\<rparr>)),
            w\<lparr>subscriptions :=
                update_first (\<lambda>r. s_id r = s_id old)
                  (\<lambda>r. r\<lparr>s_isActive := True,
                     s_checkInterval := (case b_checkInterval body of None \<Rightarrow> 60 | Some i \<Rightarrow> i),
                     s_keywords := map trim (case b_keywords body of None \<Rightarrow> [] | Some ks \<Rightarrow> ks),
                     s_includeReplies := (case b_includeReplies body of None \<Rightarrow> False | Some b \<Rightarrow> b),
                     s_includeRetweets := (case b_includeRetweets body of None \<Rightarrow> False | Some b \<Rightarrow> b),
                     s_lastChecked := clock w, s_updatedAt := Some (clock w)\<rparr>)
                  (subscriptions w)\<rparr>)"
proof -
  from service obtain user enc svc where
    "find (\<lambda>u. u_id u = uid) (users w) = Some user" "u_twitterCredentials user = Some enc"
    "createForUser ext w uid = Some svc"
    by (auto simp: createForUser_def split: option.splits sum.splits)
  moreover have "15 \<le> (case b_checkInterval body of None \<Rightarrow> 60 | Some i \<Rightarrow> i) \<and>
                 (case b_checkInterval body of None \<Rightarrow> 60 | Some i \<Rightarrow> i) \<le> 1440"
    using valid(2) by (simp split: option.splits)
  moreover have "\<not> (case b_checkInterval body of None \<Rightarrow> False | Some i \<Rightarrow> \<not> (15 \<le> i \<and> i \<le> 1440))"
    using valid(2) by (simp split: option.splits)
  ultimately show ?thesis
    using valid(1) account found inactive
    by (simp add: createSubscription_def Subscription_save_reactivated_def Let_def)
qed

lemma update_first_map:
  "distinct (map s_id xs) \<Longrightarrow>
     update_first (\<lambda>r. s_id r = i) f xs = map (\<lambda>r. if s_id r = i then f r else r) xs"
proof (induction xs)
  case Nil
  then show ?case by simp
next
  case (Cons x xs)
  show ?case
  proof (cases "s_id x = i")
    case True
    with Cons.prems have "i \<notin> s_id ` set xs" by simp
    then have "\<forall>r\<in>set xs. s_id r \<noteq> i" by blast
    then have "map (\<lambda>r. if s_id r = i then f r else r) xs = xs"
      by (intro map_idI) simp
    with True show ?thesis by simp
  next
    case False
    with Cons show ?thesis by simp
  qed
qed

lemma find_map_preserve:
  "(\<And>x. P (g x) = P x) \<Longrightarrow> find P (map g xs) = map_option g (find P xs)"
  by (induction xs) simp_all

lemma reactivate_in_place:
  assumes valid: "b_targetUsername body \<noteq> []"
      "\<forall>i. b_checkInterval body = Some i \<longrightarrow> 15 \<le> i \<and> i \<le> 1440"
    and service: "createForUser ext w uid \<noteq> None"
    and account: "getUserByUsername ext (toLowerCase (trim (b_targetUsername body))) = Inr tu"
    and found: "find (\<lambda>s. s_userId s = uid \<and>
                         s_targetUsername s = toLowerCase (trim (b_targetUsername body)))
                  (subscriptions w) = Some old"
    and inactive: "\<not> s_isActive old"
    and ids: "distinct (map s_id (subscriptions w))"
  shows "status (fst (createSubscription ext uid body w)) = 200"
    and "subscriptions (snd (createSubscription ext uid body w)) =
           map (\<lambda>s. if s_id s = s_id old
                     then s\<lparr>s_isActive := True,
                       s_checkInterval := (case b_checkInterval body of None \<Rightarrow> 60 | Some i \<Rightarrow> i),
                       s_keywords := map trim (case b_keywords body of None \<Rightarrow> [] | Some ks \<Rightarrow> ks),
                       s_includeReplies := (case b_includeReplies body of None \<Rightarrow> False | Some b \<Rightarrow> b),
                       s_includeRetweets := (case b_includeRetweets body of None \<Rightarrow> False | Some b \<Rightarrow> b),
                       s_lastChecked := clock w, s_updatedAt := Some (clock w)\<rparr>
                     else s) (subscriptions w)"
    and "find (\<lambda>s. s_userId s = uid \<and>
                   s_targetUsername s = toLowerCase (trim (b_targetUsername body)))
           (subscriptions (snd (createSubscription ext uid body w))) =
         Some (old\<lparr>s_isActive := True,
                 s_checkInterval := (case b_checkInterval body of None \<Rightarrow> 60 | Some i \<Rightarrow> i),
                 s_keywords := map trim (case b_keywords body of None \<Rightarrow> [] | Some ks \<Rightarrow> ks),
                 s_includeReplies := (case b_includeReplies body of None \<Rightarrow> False | Some b \<Rightarrow> b),
                 s_includeRetweets := (case b_includeRetweets body of None \<Rightarrow> False | Some b \<Rightarrow> b),
                 s_lastChecked := clock w, s_updatedAt := Some (clock w)\<rparr>)"
proof -
  let ?R = "\<lambda>s. s\<lparr>s_isActive := True,
                       s_checkInterval := (case b_checkInterval body of None \<Rightarrow> 60 | Some i \<Rightarrow> i),
                       s_keywords := map trim (case b_keywords body of None \<Rightarrow> [] | Some ks \<Rightarrow> ks),
                       s_includeReplies := (case b_includeReplies body of None \<Rightarrow> False | Some b \<Rightarrow> b),
                       s_includeRetweets := (case b_includeRetweets body of None \<Rightarrow> False | Some b \<Rightarrow> b),
                       s_lastChecked := clock w, s_updatedAt := Some (clock w)\<rparr>"
  let ?g = "\<lambda>s. if s_id s = s_id old then ?R s else s"
  let ?P = "\<lambda>s. s_userId s = uid \<and>
                 s_targetUsername s = toLowerCase (trim (b_targetUsername body))"
  note run = reactivate_run[OF valid service account found inactive]
  from run show "status (fst (createSubscription ext uid body w)) = 200"
    by simp
  from run have "subscriptions (snd (createSubscription ext uid body w)) =
      update_first (\<lambda>r. s_id r = s_id old) ?R (subscriptions w)"
    by simp
  also have "\<dots> = map ?g (subscriptions w)"
    using ids by (rule update_first_map)
  finally show subs: "subscriptions (snd (createSubscription ext uid body w)) =
      map ?g (subscriptions w)" .
  have "find ?P (map ?g (subscriptions w)) = map_option ?g (find ?P (subscriptions w))"
    by (rule find_map_preserve) simp
  with found subs
  show "find ?P (subscriptions (snd (createSubscription ext uid body w))) = Some (?R old)"
    by simp
qed

lemma create_existing_unchanged:
  assumes found: "find (\<lambda>s. s_userId s = uid \<and>
                        s_targetUsername s = toLowerCase (trim (b_targetUsername body)))
                    (subscriptions w) = Some existing"
    and failed: "status (fst (createSubscription ext uid body w)) \<noteq> 200"
  shows "snd (createSubscription ext uid body w) = w"
proof -
  obtain resp w' where run: "createSubscription ext uid body w = (resp, w')"
    by (cases "createSubscription ext uid body w")
  from run have "w' = w"
  proof (cases rule: createSubscription_cases)
    case unchanged
    then show ?thesis by simp
  next
    case rejected
    with found show ?thesis by simp
  next
    case (reactivated old)
    with failed run show ?thesis by simp
  next
    case inserted
    with found show ?thesis by simp
  qed
  with run show ?thesis by simp
qed

lemma service_unavailable:
  assumes "b_targetUsername body \<noteq> []"
      "\<forall>i. b_checkInterval body = Some i \<longrightarrow> 15 \<le> i \<and> i \<le> 1440"
    and "createForUser ext w uid = None"
  shows "status (fst (createSubscription ext uid body w)) = 400"
    and "snd (createSubscription ext uid body w) = w"
  using assms
  by (auto simp: createSubscription_def Let_def split: option.splits)

lemma loop_append:
  "processSubscriptionTweets_loop sub tu (xs @ ys) n w =
     (case processSubscriptionTweets_loop sub tu xs n w of
        (Inl e, w1) \<Rightarrow> (Inl e, w1)
      | (Inr m, w1) \<Rightarrow> processSubscriptionTweets_loop sub tu ys m w1)"
proof (induction xs arbitrary: n w)
  case Nil
  then show ?case by simp
next
  case (Cons x xs)
  show ?case
  proof (cases "Post_findOne_tweetId (t_id x) w")
    case (Some p)
    with Cons show ?thesis by simp
  next
    case None
    show ?thesis
    proof (cases "Post_save (new_Post sub tu x) (concurrent_window w)")
      case (Inl e)
      with None show ?thesis by (simp add: Let_def)
    next
      case (Inr w2)
      with None Cons.IH[of "n + 1" w2] show ?thesis by (simp add: Let_def)
    qed
  qed
qed

lemma loop_fails_at_save:
  assumes before: "processSubscriptionTweets_loop sub tu pre n w = (Inr m, w1)"
    and fresh: "t_id t \<notin> p_tweetId ` set (posts w1)"
    and rejected: "Post_save (new_Post sub tu t) (concurrent_window w1) = Inl e"
  shows "processSubscriptionTweets_loop sub tu (pre @ t # rest) n w = (Inl e, concurrent_window w1)"
proof -
  have "processSubscriptionTweets_loop sub tu (t # rest) m w1 = (Inl e, concurrent_window w1)"
    using fresh rejected by (simp add: Post_findOne_tweetId_None[symmetric] Let_def)
  with before show ?thesis by (simp add: loop_append)
qed

lemma process_fails_at_save:
  assumes u: "getUserByUsername ext (s_targetUsername sub) = Inr (Some tu)"
    and f: "getUserTweets ext (uv_id tu) (subscriptionOptions sub) = Inr (pre @ t # rest)"
    and before: "processSubscriptionTweets_loop sub tu pre 0 w = (Inr m, w1)"
    and fresh: "t_id t \<notin> p_tweetId ` set (posts w1)"
    and rejected: "Post_save (new_Post sub tu t) (concurrent_window w1) = Inl e"
  shows "processSubscriptionTweets ext sub w = (Inl e, concurrent_window w1)"
    and "subscriptions (concurrent_window w1) = subscriptions w"
    and "\<exists>new. posts (concurrent_window w1) = posts w @ new"
    and "\<forall>x\<in>set pre. t_id x \<in> p_tweetId ` set (posts (concurrent_window w1))"
proof -
  from loop_fails_at_save[OF before fresh rejected]
  show "processSubscriptionTweets ext sub w = (Inl e, concurrent_window w1)"
    using u f by (simp add: processSubscriptionTweets_def)
  from loop_frame[OF before] show "subscriptions (concurrent_window w1) = subscriptions w"
    by simp
  obtain new1 where n1: "posts w1 = posts w @ new1"
    using loop_posts_grow[OF before] by blast
  obtain new2 where n2: "posts (concurrent_window w1) = posts w1 @ new2"
    using concurrent_window_posts[of w1] by blast
  from n1 n2 show "\<exists>new. posts (concurrent_window w1) = posts w @ new" by simp
  from loop_success_present[OF before] n2
  show "\<forall>x\<in>set pre. t_id x \<in> p_tweetId ` set (posts (concurrent_window w1))"
    by auto
qed

lemma process_fails_at_resolution:
  "getUserByUsername ext (s_targetUsername sub) = Inl e \<Longrightarrow>
     processSubscriptionTweets ext sub w = (Inl e, w)"
  by (simp add: processSubscriptionTweets_def)

lemma process_fails_at_fetch:
  "getUserByUsername ext (s_targetUsername sub) = Inr (Some tu) \<Longrightarrow>
   getUserTweets ext (uv_id tu) (subscriptionOptions sub) = Inl e \<Longrightarrow>
     processSubscriptionTweets ext sub w = (Inl e, w)"
  by (simp add: processSubscriptionTweets_def)

lemma process_fails_unresolved:
  "getUserByUsername ext (s_targetUsername sub) = Inr None \<Longrightarrow>
     processSubscriptionTweets ext sub w =
       (Inl (Error None ''Cannot read properties of undefined''), w)"
  by (simp add: processSubscriptionTweets_def)

lemma process_success_checkpoint:
  assumes run: "processSubscriptionTweets ext sub w = (Inr n, w')"
  shows "subscriptions w' =
           update_first (\<lambda>s. s_id s = s_id sub)
             (\<lambda>s. s\<lparr>s_lastChecked := clock w, s_updatedAt := Some (clock w)\<rparr>)
             (subscriptions w)"
    and "checkpoint (s_id sub) w' = map_option (\<lambda>old. clock w) (checkpoint (s_id sub) w)"
proof -
  from run obtain tu tweets w1 where
    loop: "processSubscriptionTweets_loop sub tu tweets 0 w = (Inr n, w1)"
    and w': "w' = advance_checkpoint sub w1"
    by (auto elim: process_Inr)
  from loop_frame[OF loop] have same: "subscriptions w1 = subscriptions w" "clock w1 = clock w"
    by simp_all
  show "subscriptions w' =
      update_first (\<lambda>s. s_id s = s_id sub)
        (\<lambda>s. s\<lparr>s_lastChecked := clock w, s_updatedAt := Some (clock w)\<rparr>) (subscriptions w)"
    using w' same by (simp add: advance_checkpoint_subscriptions)
  show "checkpoint (s_id sub) w' = map_option (\<lambda>old. clock w) (checkpoint (s_id sub) w)"
    using w' same checkpoint_advance[of sub w1] checkpoint_cong[of w1 w "s_id sub"] by simp
qed

lemma list_all_update_first:
  "list_all P xs \<Longrightarrow> (\<And>x. P x \<Longrightarrow> P (f x)) \<Longrightarrow> list_all P (update_first Q f xs)"
  by (induction xs) auto

lemma process_checkpoints_past:
  assumes run: "processSubscriptionTweets ext sub w = (r, w')"
    and past: "checkpoints_past w"
  shows "checkpoints_past w'"
proof (cases r)
  case (Inl e)
  with run process_failure_frame[of ext sub w e w'] past show ?thesis
    by (simp add: checkpoints_past_def)
next
  case (Inr n)
  with run obtain tu tweets w1 where
    loop: "processSubscriptionTweets_loop sub tu tweets 0 w = (Inr n, w1)"
    and w': "w' = advance_checkpoint sub w1"
    by (auto elim: process_Inr)
  from loop_frame[OF loop] have same: "subscriptions w1 = subscriptions w" "clock w1 = clock w"
    by simp_all
  have "list_all (\<lambda>s. s_lastChecked s \<le> clock w)
          (update_first (\<lambda>s. s_id s = s_id sub)
             (\<lambda>s. s\<lparr>s_lastChecked := clock w, s_updatedAt := Some (clock w)\<rparr>) (subscriptions w))"
    using past by (intro list_all_update_first) (simp_all add: checkpoints_past_def)
  then show ?thesis
    unfolding w' checkpoints_past_def advance_checkpoint_subscriptions
    by (simp add: same)
qed

lemma delay_checkpoints_past:
  "checkpoints_past w \<Longrightarrow> 0 \<le> ms \<Longrightarrow> checkpoints_past (delay ms w)"
  by (auto simp: checkpoints_past_def delay_def list_all_iff)

lemma batch_loop_checkpoints_past:
  "checkpoints_past w \<Longrightarrow>
     checkpoints_past (snd (processAllUserSubscriptions_loop ext subs r w))"
proof (induction subs arbitrary: r w)
  case Nil
  then show ?case by simp
next
  case (Cons s subs)
  obtain res w' where run: "processSubscriptionTweets ext s w = (res, w')"
    by (cases "processSubscriptionTweets ext s w")
  have past': "checkpoints_past w'"
    using run Cons.prems by (rule process_checkpoints_past)
  show ?case
  proof (cases "is_due s w")
    case False
    then show ?thesis unfolding batch_step_due[of ext s] using Cons by simp
  next
    case True
    show ?thesis
    proof (cases res)
      case (Inl e)
      with True run Cons.IH[OF past'] show ?thesis
        unfolding batch_step_due[of ext s] by simp
    next
      case (Inr c)
      have "checkpoints_past (delay 1000 w')"
        using past' by (rule delay_checkpoints_past) simp
      from Cons.IH[OF this] True run Inr show ?thesis
        unfolding batch_step_due[of ext s] by simp
    qed
  qed
qed

lemma batch_checkpoints_past:
  "checkpoints_past w \<Longrightarrow> checkpoints_past (snd (processAllUserSubscriptions ext uid w))"
  unfolding processAllUserSubscriptions_def Let_def by (rule batch_loop_checkpoints_past)

lemma scheduled_loop_checkpoints_past:
  "checkpoints_past w \<Longrightarrow> checkpoints_past (scheduled_loop ext us w)"
proof (induction us arbitrary: w)
  case Nil
  then show ?case by simp
next
  case (Cons u us)
  show ?case
  proof (cases "createForUser ext w (u_id u)")
    case None
    have "checkpoints_past (delay 2000 w)"
      using Cons.prems by (rule delay_checkpoints_past) simp
    from Cons.IH[OF this] None show ?thesis by simp
  next
    case (Some svc)
    have "checkpoints_past (delay 2000 (snd (processAllUserSubscriptions ext (u_id u) w)))"
      using batch_checkpoints_past[OF Cons.prems] by (rule delay_checkpoints_past) simp
    from Cons.IH[OF this] Some show ?thesis by simp
  qed
qed

lemma refresh_checkpoints_past:
  assumes "checkpoints_past w"
  shows "checkpoints_past (snd (refreshSubscription ext sid uid w))"
proof (cases "find (\<lambda>s. s_id s = sid \<and> s_userId s = uid) (subscriptions w)")
  case None
  with assms show ?thesis by (simp add: refreshSubscription_def)
next
  case (Some sub)
  show ?thesis
  proof (cases "createForUser ext w uid")
    case None
    with Some assms show ?thesis by (simp add: refreshSubscription_def)
  next
    case svc: (Some svc)
    obtain res w' where run: "processSubscriptionTweets ext sub w = (res, w')"
      by (cases "processSubscriptionTweets ext sub w")
    from process_checkpoints_past[OF run assms] Some svc run
    show ?thesis by (cases res) (simp_all add: refreshSubscription_def)
  qed
qed

lemma save_new_checkpoints_past:
  assumes save: "Subscription_save_new s (w\<lparr>nextId := k\<rparr>) = Inr w'"
    and time: "s_lastChecked s \<le> clock w"
    and past: "checkpoints_past w"
  shows "checkpoints_past w'"
  using assms
  by (auto simp: Subscription_save_new_def checkpoints_past_def split: if_splits)

lemma create_checkpoints_past:
  assumes past: "checkpoints_past w"
  shows "checkpoints_past (snd (createSubscription ext uid body w))"
proof -
  obtain resp w' where run: "createSubscription ext uid body w = (resp, w')"
    by (cases "createSubscription ext uid body w")
  from run have "checkpoints_past w'"
  proof (cases rule: createSubscription_cases)
    case unchanged
    with past show ?thesis by simp
  next
    case rejected
    with past show ?thesis by (simp add: checkpoints_past_def)
  next
    case (reactivated old)
    from reactivated(4) past show ?thesis
      by (auto simp: Subscription_save_reactivated_def checkpoints_past_def
          intro!: list_all_update_first split: if_splits)
  next
    case inserted
    from save_new_checkpoints_past[OF inserted(2) _ past] show ?thesis by simp
  qed
  with run show ?thesis by simp
qed

lemma seed_subscriptions_checkpoints_past:
  "checkpoints_past w \<Longrightarrow>
     checkpoints_past (snd (createTestTweets_subscriptions uid names w))"
proof (induction names arbitrary: w)
  case Nil
  then show ?case by simp
next
  case (Cons n names)
  show ?case
  proof (cases "find (\<lambda>s. s_userId s = uid \<and> s_targetUsername s = n) (subscriptions w)")
    case (Some s)
    with Cons show ?thesis by simp
  next
    case None
    let ?sub = "\<lparr>s_id = nextId w, s_userId = uid, s_targetUsername = trim (toLowerCase n),
                  s_isActive = True, s_checkInterval = 60,
                  s_lastChecked = clock w - 48 * 60 * 60 * 1000, s_keywords = [],
                  s_includeReplies = False, s_includeRetweets = False,
                  s_createdAt = None, s_updatedAt = None\<rparr>"
    show ?thesis
    proof (cases "Subscription_save_new ?sub (w\<lparr>nextId := nextId w + 1\<rparr>)")
      case (Inl e)
      with None Cons.prems show ?thesis
        by (simp add: Let_def checkpoints_past_def)
    next
      case (Inr w')
      from save_new_checkpoints_past[OF Inr _ Cons.prems] have "checkpoints_past w'"
        by simp
      with Cons.IH[of w'] None Inr show ?thesis by (simp add: Let_def)
    qed
  qed
qed

lemma seed_posts_clock:
  "clock (createTestTweets_posts rows w) = clock w"
proof (induction rows arbitrary: w)
  case Nil
  then show ?case by simp
next
  case (Cons p rows)
  show ?case
  proof (cases "Post_save p w")
    case (Inl e)
    with Cons show ?thesis by simp
  next
    case (Inr w')
    with Cons.IH[of w'] Cons.IH[of w] Post_save_Inr[OF Inr] show ?thesis by simp
  qed
qed

lemma seed_checkpoints_past:
  assumes past: "checkpoints_past w"
  shows "checkpoints_past (createTestTweets rows w)"
proof (cases "find (\<lambda>u. u_email u = ''test@example.com'') (users w)")
  case None
  with past show ?thesis by (simp add: createTestTweets_def)
next
  case (Some user)
  obtain r w' where run:
    "createTestTweets_subscriptions (u_id user) [''elonmusk'', ''twitter''] w = (r, w')"
    by (cases "createTestTweets_subscriptions (u_id user) [''elonmusk'', ''twitter''] w")
  with seed_subscriptions_checkpoints_past[OF past, of "u_id user" "[''elonmusk'', ''twitter'']"]
  have w': "checkpoints_past w'" by simp
  have "checkpoints_past (createTestTweets_posts rows w')"
    using w' seed_posts_frame[of rows w'] seed_posts_clock[of rows w']
    by (simp add: checkpoints_past_def)
  with Some run w' show ?thesis
    by (cases r) (simp_all add: createTestTweets_def)
qed

lemma perform_checkpoints_past:
  assumes past: "checkpoints_past w"
  shows "checkpoints_past (perform ext ev w)"
proof (cases ev)
  case (CreateSubscription uid body)
  with create_checkpoints_past[OF past] show ?thesis by simp
next
  case (DeleteSubscription sid uid)
  have "list_all (\<lambda>s. s_lastChecked s \<le> clock w)
          (update_first (\<lambda>s. s_id s = sid \<and> s_userId s = uid)
             (\<lambda>s. s\<lparr>s_isActive := False, s_updatedAt := Some (clock w)\<rparr>) (subscriptions w))"
    using past by (intro list_all_update_first) (simp_all add: checkpoints_past_def)
  with DeleteSubscription show ?thesis
    by (simp add: checkpoints_past_def delete_subscriptions)
next
  case (RefreshSubscription sid uid)
  with refresh_checkpoints_past[OF past] show ?thesis by simp
next
  case (ProcessAllUserSubscriptions uid)
  with batch_checkpoints_past[OF past] show ?thesis by simp
next
  case ScheduledJob
  with scheduled_loop_checkpoints_past[OF past] show ?thesis by (simp add: scheduled_job_def)
next
  case (CreateTestTweets rows)
  with seed_checkpoints_past[OF past] show ?thesis by simp
next
  case (AccountRoutes us)
  with past show ?thesis by (simp add: checkpoints_past_def)
next
  case (Elapse ms)
  with past show ?thesis by (auto simp: checkpoints_past_def list_all_iff)
next
  case (Overlap rows)
  with past show ?thesis by (simp add: checkpoints_past_def)
qed

lemma reachable_checkpoints_past: "reachable w \<Longrightarrow> checkpoints_past w"
proof (induction rule: reachable.induct)
  case (initial w)
  then show ?case by (simp add: checkpoints_past_def)
next
  case (step w ext ev)
  from step.IH show ?case by (rule perform_checkpoints_past)
qed

lemma checkpoint_past:
  "checkpoints_past w \<Longrightarrow> checkpoint sid w = Some old \<Longrightarrow> old \<le> clock w"
  by (auto simp: checkpoints_past_def checkpoint_def list_all_iff find_Some_iff)

lemma two_state:
  "w_two = \<lparr>users = [user_demo], subscriptions = [sub_acme, sub_blank], posts = [],
            clock = 5001000, nextId = 22, concurrent = []\<rparr>"
  by code_simp

lemma two_reachable: "reachable w_two"
  unfolding w_two_def
  by (intro reachable.step reachable.initial) (simp add: w_demo_def)

lemma empty_tokens_no_service:
  "createForUser (ext_demo\<lparr>AES_decrypt := (\<lambda>c. Some [])\<rparr>) w_inactive 1 = None"
  "createSubscription (ext_demo\<lparr>AES_decrypt := (\<lambda>c. Some [])\<rparr>) 1 body_demo w_inactive =
     (Response 400 (ErrorBody ''Failed to initialize Twitter service''), w_inactive)"
  by code_simp+

section \<open>Properties\<close>

text \<open>
  C1. Idempotence of reconciliation: when a run of \<open>processSubscriptionTweets\<close>
  has succeeded and the subscription (as it was, or reloaded with its new checkpoint) is
  processed again at once, the remote side returning the same posts, the second run
  counts 0 new posts and leaves the Post collection as it is.
\<close>

theorem reconcileOne_idempotent:
  assumes first: "processSubscriptionTweets ext sub w = (Inr n, w1)"
    and again: "sub' = sub\<lparr>s_lastChecked := t, s_updatedAt := u\<rparr>"
    and same: "\<forall>uid. userTimeline ext uid (timelineParams (subscriptionOptions sub')) =
                     userTimeline ext uid (timelineParams (subscriptionOptions sub))"
  shows "\<exists>w2. processSubscriptionTweets ext sub' w1 = (Inr 0, w2) \<and> posts w2 = posts w1"
proof -
  from first obtain tu tweets w0 where
    user: "getUserByUsername ext (s_targetUsername sub) = Inr (Some tu)"
    and fetch: "getUserTweets ext (uv_id tu) (subscriptionOptions sub) = Inr tweets"
    and loop: "processSubscriptionTweets_loop sub tu tweets 0 w = (Inr n, w0)"
    and w1: "w1 = advance_checkpoint sub w0"
    by (rule process_Inr)
  have stored: "\<forall>t\<in>set tweets. t_id t \<in> p_tweetId ` set (posts w1)"
    using loop_success_present[OF loop] w1 by simp
  have user': "getUserByUsername ext (s_targetUsername sub') = Inr (Some tu)"
    using user again by simp
  have "o_keywords (subscriptionOptions sub') = o_keywords (subscriptionOptions sub)"
    using again by (simp add: subscriptionOptions_def)
  then have fetch': "getUserTweets ext (uv_id tu) (subscriptionOptions sub') = Inr tweets"
    using getUserTweets_same_source[of "subscriptionOptions sub'" "subscriptionOptions sub"]
      same fetch by simp
  have loop': "processSubscriptionTweets_loop sub' tu tweets 0 w1 = (Inr 0, w1)"
    using stored by (rule loop_all_present)
  have "processSubscriptionTweets ext sub' w1 = (Inr 0, advance_checkpoint sub' w1)"
    using user' fetch' loop'
    by (simp add: processSubscriptionTweets_def advance_checkpoint_def)
  then show ?thesis by simp
qed

theorem reconcileOne_idempotent_witness:
  "fst (processSubscriptionTweets ext_demo (sub_demo 10 ''acme'') (w_demo [sub_demo 10 ''acme''])) = Inr 2 \<and>
   (\<exists>w2. processSubscriptionTweets ext_demo
            ((sub_demo 10 ''acme'')\<lparr>s_lastChecked := 5000000, s_updatedAt := Some 5000000\<rparr>)
            (snd (processSubscriptionTweets ext_demo (sub_demo 10 ''acme'')
                    (w_demo [sub_demo 10 ''acme'']))) = (Inr 0, w2) \<and>
          map p_tweetId (posts w2) = [''t1'', ''t2''])"
proof -
  let ?sub = "sub_demo 10 ''acme''"
  let ?run = "processSubscriptionTweets ext_demo ?sub (w_demo [?sub])"
  have count: "fst ?run = Inr 2" by code_simp
  have ids: "map p_tweetId (posts (snd ?run)) = [''t1'', ''t2'']" by code_simp
  from count have first: "?run = (Inr 2, snd ?run)" by (simp add: prod_eq_iff)
  have same: "\<forall>uid. userTimeline ext_demo uid
                 (timelineParams (subscriptionOptions
                    (?sub\<lparr>s_lastChecked := 5000000, s_updatedAt := Some 5000000\<rparr>))) =
               userTimeline ext_demo uid (timelineParams (subscriptionOptions ?sub))"
    by (simp add: ext_demo_def)
  from reconcileOne_idempotent[OF first refl same] ids count show ?thesis by auto
qed

text \<open>
  C2, the claim as stated fails in its comparison with the fetched posts. The run reads
  the server's clock and compares it with nothing: in a state reached by two create
  requests, a successful run that fetches and stores a post whose creation time is later
  than the server's time leaves the checkpoint at the server's time, earlier than the
  creation time of that post.
\<close>

theorem checkpoint_behind_fetched_post:
  "reachable w_two \<and>
   find (\<lambda>s. s_id s = 20) (subscriptions w_two) = Some sub_acme \<and>
   fetchedTweets ext_skew sub_acme = [tweet_ahead] \<and>
   t_created_at tweet_ahead = 9000000 \<and>
   fst (processSubscriptionTweets ext_skew sub_acme w_two) = Inr 1 \<and>
   map p_tweetId (posts (snd (processSubscriptionTweets ext_skew sub_acme w_two))) = [''t9''] \<and>
   checkpoint 20 (snd (processSubscriptionTweets ext_skew sub_acme w_two)) = Some 5001000"
proof -
  have a: "find (\<lambda>s. s_id s = 20) (subscriptions w_two) = Some sub_acme"
    by (simp add: two_state sub_acme_def)
  have b: "fetchedTweets ext_skew sub_acme = [tweet_ahead]"
    by code_simp
  have c: "t_created_at tweet_ahead = 9000000"
    by (simp add: tweet_ahead_def)
  have d: "fst (processSubscriptionTweets ext_skew sub_acme w_two) = Inr 1"
    by code_simp
  have e: "map p_tweetId (posts (snd (processSubscriptionTweets ext_skew sub_acme w_two))) =
             [''t9'']"
    by code_simp
  have f: "checkpoint 20 (snd (processSubscriptionTweets ext_skew sub_acme w_two)) =
             Some 5001000"
    by code_simp
  show ?thesis by (intro conjI two_reachable a b c d e f)
qed

text \<open>
  C2, amended. Checkpoint update discipline in a reachable state. A successful run
  writes the current time to \<open>lastChecked\<close> (and the update stamp) of the row with the
  subscription's identifier, whatever the fetched posts are, and to no other row; this is
  at least the prior checkpoint, and every fetched post is stored afterwards. If a step
  fails, every subscription is as it was: a failed account resolution or fetch leaves the
  whole store as it was, and a save that the store rejects, at whatever position of the
  fetched posts, ends the run with that error in the store of that moment, which begins
  with the posts stored before the run followed by those stored during it, the posts
  fetched ahead of the rejected one among them.
\<close>

theorem checkpoint_discipline:
  assumes state: "reachable w"
  shows "(processSubscriptionTweets ext sub w = (Inr n, w') \<longrightarrow>
            subscriptions w' =
              update_first (\<lambda>s. s_id s = s_id sub)
                (\<lambda>s. s\<lparr>s_lastChecked := clock w, s_updatedAt := Some (clock w)\<rparr>)
                (subscriptions w) \<and>
            checkpoint (s_id sub) w' = map_option (\<lambda>old. clock w) (checkpoint (s_id sub) w) \<and>
            (\<forall>old new. checkpoint (s_id sub) w = Some old \<longrightarrow>
                       checkpoint (s_id sub) w' = Some new \<longrightarrow> old \<le> new \<and> new = clock w) \<and>
            (\<forall>t\<in>set (fetchedTweets ext sub). t_id t \<in> p_tweetId ` set (posts w')) \<and>
            (\<exists>new. posts w' = posts w @ new)) \<and>
         (processSubscriptionTweets ext sub w = (Inl e, w') \<longrightarrow>
            subscriptions w' = subscriptions w \<and> (\<exists>new. posts w' = posts w @ new)) \<and>
         (getUserByUsername ext (s_targetUsername sub) = Inl e \<longrightarrow>
            processSubscriptionTweets ext sub w = (Inl e, w)) \<and>
         (getUserByUsername ext (s_targetUsername sub) = Inr None \<longrightarrow>
            processSubscriptionTweets ext sub w =
              (Inl (Error None ''Cannot read properties of undefined''), w)) \<and>
         (getUserByUsername ext (s_targetUsername sub) = Inr (Some tu) \<and>
          getUserTweets ext (uv_id tu) (subscriptionOptions sub) = Inl e \<longrightarrow>
            processSubscriptionTweets ext sub w = (Inl e, w)) \<and>
         (getUserByUsername ext (s_targetUsername sub) = Inr (Some tu) \<and>
          getUserTweets ext (uv_id tu) (subscriptionOptions sub) = Inr (pre @ t # rest) \<and>
          processSubscriptionTweets_loop sub tu pre 0 w = (Inr m, w1) \<and>
          t_id t \<notin> p_tweetId ` set (posts w1) \<and>
          Post_save (new_Post sub tu t) (concurrent_window w1) = Inl e \<longrightarrow>
            processSubscriptionTweets ext sub w = (Inl e, concurrent_window w1) \<and>
            subscriptions (concurrent_window w1) = subscriptions w \<and>
            (\<forall>sid. checkpoint sid (concurrent_window w1) = checkpoint sid w) \<and>
            (\<exists>new. posts w1 = posts w @ new) \<and>
            (\<exists>new. posts (concurrent_window w1) = posts w1 @ new) \<and>
            (\<forall>x\<in>set pre. t_id x \<in> p_tweetId ` set (posts (concurrent_window w1))))"
proof -
  have past: "checkpoints_past w"
    using state by (rule reachable_checkpoints_past)
  have success: "subscriptions w' =
              update_first (\<lambda>s. s_id s = s_id sub)
                (\<lambda>s. s\<lparr>s_lastChecked := clock w, s_updatedAt := Some (clock w)\<rparr>)
                (subscriptions w) \<and>
            checkpoint (s_id sub) w' = map_option (\<lambda>old. clock w) (checkpoint (s_id sub) w) \<and>
            (\<forall>old new. checkpoint (s_id sub) w = Some old \<longrightarrow>
                       checkpoint (s_id sub) w' = Some new \<longrightarrow> old \<le> new \<and> new = clock w) \<and>
            (\<forall>t\<in>set (fetchedTweets ext sub). t_id t \<in> p_tweetId ` set (posts w')) \<and>
            (\<exists>new. posts w' = posts w @ new)"
    if run: "processSubscriptionTweets ext sub w = (Inr n, w')"
  proof -
    note cp = process_success_checkpoint[OF run]
    have mono: "\<forall>old new. checkpoint (s_id sub) w = Some old \<longrightarrow>
                       checkpoint (s_id sub) w' = Some new \<longrightarrow> old \<le> new \<and> new = clock w"
      using cp(2) checkpoint_past[OF past] by auto
    from cp mono process_success_present[OF run] process_posts_grow[OF run]
    show ?thesis by (intro conjI)
  qed
  have failure: "subscriptions w' = subscriptions w \<and> (\<exists>new. posts w' = posts w @ new)"
    if run: "processSubscriptionTweets ext sub w = (Inl e, w')"
    using process_failure_frame[OF run] process_posts_grow[OF run] by simp
  have save: "processSubscriptionTweets ext sub w = (Inl e, concurrent_window w1) \<and>
            subscriptions (concurrent_window w1) = subscriptions w \<and>
            (\<forall>sid. checkpoint sid (concurrent_window w1) = checkpoint sid w) \<and>
            (\<exists>new. posts w1 = posts w @ new) \<and>
            (\<exists>new. posts (concurrent_window w1) = posts w1 @ new) \<and>
            (\<forall>x\<in>set pre. t_id x \<in> p_tweetId ` set (posts (concurrent_window w1)))"
    if u: "getUserByUsername ext (s_targetUsername sub) = Inr (Some tu)"
      and f: "getUserTweets ext (uv_id tu) (subscriptionOptions sub) = Inr (pre @ t # rest)"
      and before: "processSubscriptionTweets_loop sub tu pre 0 w = (Inr m, w1)"
      and fresh: "t_id t \<notin> p_tweetId ` set (posts w1)"
      and rejected: "Post_save (new_Post sub tu t) (concurrent_window w1) = Inl e"
  proof -
    note at = process_fails_at_save[OF u f before fresh rejected]
    have cps: "\<forall>sid. checkpoint sid (concurrent_window w1) = checkpoint sid w"
      using at(2) by (simp add: checkpoint_def)
    have grow: "\<exists>new. posts w1 = posts w @ new"
      using before by (rule loop_posts_grow)
    have window: "\<exists>new. posts (concurrent_window w1) = posts w1 @ new"
      using concurrent_window_posts[of w1] by blast
    from at(1) at(2) cps grow window at(4) show ?thesis by (intro conjI)
  qed
  have c1: "processSubscriptionTweets ext sub w = (Inr n, w') \<longrightarrow>
            subscriptions w' =
              update_first (\<lambda>s. s_id s = s_id sub)
                (\<lambda>s. s\<lparr>s_lastChecked := clock w, s_updatedAt := Some (clock w)\<rparr>)
                (subscriptions w) \<and>
            checkpoint (s_id sub) w' = map_option (\<lambda>old. clock w) (checkpoint (s_id sub) w) \<and>
            (\<forall>old new. checkpoint (s_id sub) w = Some old \<longrightarrow>
                       checkpoint (s_id sub) w' = Some new \<longrightarrow> old \<le> new \<and> new = clock w) \<and>
            (\<forall>t\<in>set (fetchedTweets ext sub). t_id t \<in> p_tweetId ` set (posts w')) \<and>
            (\<exists>new. posts w' = posts w @ new)"
    using success by (rule impI)
  have c2: "processSubscriptionTweets ext sub w = (Inl e, w') \<longrightarrow>
            subscriptions w' = subscriptions w \<and> (\<exists>new. posts w' = posts w @ new)"
    using failure by (rule impI)
  have c3: "getUserByUsername ext (s_targetUsername sub) = Inl e \<longrightarrow>
            processSubscriptionTweets ext sub w = (Inl e, w)"
    using process_fails_at_resolution by (rule impI)
  have c4: "getUserByUsername ext (s_targetUsername sub) = Inr None \<longrightarrow>
            processSubscriptionTweets ext sub w =
              (Inl (Error None ''Cannot read properties of undefined''), w)"
    using process_fails_unresolved by (rule impI)
  have c5: "getUserByUsername ext (s_targetUsername sub) = Inr (Some tu) \<and>
          getUserTweets ext (uv_id tu) (subscriptionOptions sub) = Inl e \<longrightarrow>
            processSubscriptionTweets ext sub w = (Inl e, w)"
    using process_fails_at_fetch by blast
  have c6: "getUserByUsername ext (s_targetUsername sub) = Inr (Some tu) \<and>
          getUserTweets ext (uv_id tu) (subscriptionOptions sub) = Inr (pre @ t # rest) \<and>
          processSubscriptionTweets_loop sub tu pre 0 w = (Inr m, w1) \<and>
          t_id t \<notin> p_tweetId ` set (posts w1) \<and>
          Post_save (new_Post sub tu t) (concurrent_window w1) = Inl e \<longrightarrow>
            processSubscriptionTweets ext sub w = (Inl e, concurrent_window w1) \<and>
            subscriptions (concurrent_window w1) = subscriptions w \<and>
            (\<forall>sid. checkpoint sid (concurrent_window w1) = checkpoint sid w) \<and>
            (\<exists>new. posts w1 = posts w @ new) \<and>
            (\<exists>new. posts (concurrent_window w1) = posts w1 @ new) \<and>
            (\<forall>x\<in>set pre. t_id x \<in> p_tweetId ` set (posts (concurrent_window w1)))"
  proof (rule impI)
    assume h: "getUserByUsername ext (s_targetUsername sub) = Inr (Some tu) \<and>
          getUserTweets ext (uv_id tu) (subscriptionOptions sub) = Inr (pre @ t # rest) \<and>
          processSubscriptionTweets_loop sub tu pre 0 w = (Inr m, w1) \<and>
          t_id t \<notin> p_tweetId ` set (posts w1) \<and>
          Post_save (new_Post sub tu t) (concurrent_window w1) = Inl e"
    show "processSubscriptionTweets ext sub w = (Inl e, concurrent_window w1) \<and>
            subscriptions (concurrent_window w1) = subscriptions w \<and>
            (\<forall>sid. checkpoint sid (concurrent_window w1) = checkpoint sid w) \<and>
            (\<exists>new. posts w1 = posts w @ new) \<and>
            (\<exists>new. posts (concurrent_window w1) = posts w1 @ new) \<and>
            (\<forall>x\<in>set pre. t_id x \<in> p_tweetId ` set (posts (concurrent_window w1)))"
      by (rule save) (use h in blast)+
  qed
  show ?thesis
    apply (rule conjI[OF c1])
    apply (rule conjI[OF c2])
    apply (rule conjI[OF c3])
    apply (rule conjI[OF c4])
    apply (rule conjI[OF c5])
    apply (rule c6)
    done
qed

theorem checkpoint_discipline_witness:
  "checkpoint 20 w_two = Some 5000000 \<and>
   fst (processSubscriptionTweets ext_demo sub_acme w_two) = Inr 1 \<and>
   checkpoint 20 (snd (processSubscriptionTweets ext_demo sub_acme w_two)) = Some 5001000 \<and>
   fst (processSubscriptionTweets ext_demo sub_blank w_two) = Inl (ValidationError ''Post'') \<and>
   subscriptions (snd (processSubscriptionTweets ext_demo sub_blank w_two)) =
     [sub_acme, sub_blank] \<and>
   checkpoint 21 (snd (processSubscriptionTweets ext_demo sub_blank w_two)) = Some 5000000 \<and>
   map p_tweetId (posts (snd (processSubscriptionTweets ext_demo sub_blank w_two))) = [''t3'']"
proof -
  let ?runa = "processSubscriptionTweets ext_demo sub_acme w_two"
  let ?runb = "processSubscriptionTweets ext_demo sub_blank w_two"
  let ?tu = "account ''43'' ''blank''"
  let ?t3 = "tweet_launch\<lparr>t_id := ''t3''\<rparr>"
  let ?w1 = "snd (processSubscriptionTweets_loop sub_blank ?tu [?t3] 0 w_two)"
  have cp20: "checkpoint 20 w_two = Some 5000000"
    by (simp add: two_state checkpoint_def sub_acme_def)
  have cp21: "checkpoint 21 w_two = Some 5000000"
    by (simp add: two_state checkpoint_def sub_acme_def sub_blank_def)
  have clk: "clock w_two = 5001000"
    by (simp add: two_state)
  have ids: "s_id sub_acme = 20" "s_id sub_blank = 21"
    by (simp_all add: sub_acme_def sub_blank_def)
  have ra: "fst ?runa = Inr 1"
    by code_simp
  then have a: "?runa = (Inr 1, snd ?runa)"
    by (simp add: prod_eq_iff)
  note success = checkpoint_discipline[OF two_reachable, where ext = ext_demo and sub = sub_acme
      and n = 1 and w' = "snd ?runa", THEN conjunct1]
  have "checkpoint (s_id sub_acme) (snd ?runa) =
          map_option (\<lambda>old. clock w_two) (checkpoint (s_id sub_acme) w_two)"
    using mp[OF success a] by (rule conjunct2[THEN conjunct1])
  then have cpa: "checkpoint 20 (snd ?runa) = Some 5001000"
    by (simp only: ids cp20 clk) simp
  have u: "getUserByUsername ext_demo (s_targetUsername sub_blank) = Inr (Some ?tu)"
    by (simp add: getUserByUsername_def ext_demo_def sub_blank_def)
  have f: "getUserTweets ext_demo (uv_id ?tu) (subscriptionOptions sub_blank) =
             Inr ([?t3] @ tweet_blank # [])"
    by code_simp
  have "fst (processSubscriptionTweets_loop sub_blank ?tu [?t3] 0 w_two) = Inr 1"
    by code_simp
  then have before: "processSubscriptionTweets_loop sub_blank ?tu [?t3] 0 w_two = (Inr 1, ?w1)"
    by (simp add: prod_eq_iff)
  have fresh: "t_id tweet_blank \<notin> p_tweetId ` set (posts ?w1)"
    by code_simp
  have rejected: "Post_save (new_Post sub_blank ?tu tweet_blank) (concurrent_window ?w1) =
                    Inl (ValidationError ''Post'')"
    by code_simp
  note failing = checkpoint_discipline[OF two_reachable, where ext = ext_demo
      and sub = sub_blank and tu = ?tu and pre = "[?t3]" and t = tweet_blank and rest = "[]"
      and m = 1 and ?w1.0 = ?w1 and e = "ValidationError ''Post''",
      THEN conjunct2, THEN conjunct2, THEN conjunct2, THEN conjunct2, THEN conjunct2]
  note b = mp[OF failing, OF conjI[OF u conjI[OF f conjI[OF before conjI[OF fresh rejected]]]]]
  have run: "?runb = (Inl (ValidationError ''Post''), concurrent_window ?w1)"
    using b by (rule conjunct1)
  have rb: "fst ?runb = Inl (ValidationError ''Post'')"
    by (simp only: run fst_conv)
  have "subscriptions (concurrent_window ?w1) = subscriptions w_two"
    using b by (rule conjunct2[THEN conjunct1])
  moreover have "subscriptions w_two = [sub_acme, sub_blank]"
    by (simp add: two_state)
  ultimately have subs: "subscriptions (snd ?runb) = [sub_acme, sub_blank]"
    by (simp only: run snd_conv)
  have "\<forall>sid. checkpoint sid (concurrent_window ?w1) = checkpoint sid w_two"
    using b by (rule conjunct2[THEN conjunct2, THEN conjunct1])
  then have "checkpoint 21 (concurrent_window ?w1) = checkpoint 21 w_two"
    by (rule spec)
  then have cpb: "checkpoint 21 (snd ?runb) = Some 5000000"
    by (simp only: run snd_conv cp21)
  have stored: "map p_tweetId (posts (snd ?runb)) = [''t3'']"
    by code_simp
  show ?thesis
    by (intro conjI cp20 ra cpa rb subs cpb stored)
qed

text \<open>
  C3, the claim as stated fails: with a concurrent writer committing the same remote post
  between the existence check and the save, the save is rejected by the unique index and
  the run ends with that DuplicateKey error. Nothing is counted, the checkpoint stays
  where it was, and the caller gets the error.
\<close>

theorem duplicate_key_not_absorbed:
  "fst (processSubscriptionTweets ext_demo (sub_demo 10 ''acme'') w_race) = Inl DuplicateKey \<and>
   checkpoint 10 (snd (processSubscriptionTweets ext_demo (sub_demo 10 ''acme'') w_race)) =
     Some 1000 \<and>
   map p_tweetId (posts (snd (processSubscriptionTweets ext_demo (sub_demo 10 ''acme'') w_race))) =
     [''t1'']"
  by (simp add: race_run race_window)

text \<open>
  C3, amended. \<open>processSubscriptionTweets\<close> absorbs no error. Every failure of a
  run is the error of one of its steps, unchanged, and leaves the subscriptions as they
  were; the error of the account resolution, of the fetch, and of a save that the store
  rejects (for a violated unique index as for a failed validation), at whatever position
  of the fetched posts and whatever was skipped or saved before it, each end the run with
  that error. The only silent skip is of a post the existence check finds.
\<close>

theorem errors_propagate_unabsorbed:
  "(processSubscriptionTweets ext sub w = (Inl e, w') \<longrightarrow>
      subscriptions w' = subscriptions w \<and>
      (getUserByUsername ext (s_targetUsername sub) = Inl e \<or>
       getUserByUsername ext (s_targetUsername sub) = Inr None \<or>
       (\<exists>tu. getUserByUsername ext (s_targetUsername sub) = Inr (Some tu) \<and>
             (getUserTweets ext (uv_id tu) (subscriptionOptions sub) = Inl e \<or>
              (\<exists>t\<in>set (fetchedTweets ext sub). Post_save (new_Post sub tu t) w' = Inl e))))) \<and>
   (getUserByUsername ext (s_targetUsername sub) = Inl e \<longrightarrow>
      processSubscriptionTweets ext sub w = (Inl e, w)) \<and>
   (getUserByUsername ext (s_targetUsername sub) = Inr (Some tu) \<and>
    getUserTweets ext (uv_id tu) (subscriptionOptions sub) = Inl e \<longrightarrow>
      processSubscriptionTweets ext sub w = (Inl e, w)) \<and>
   (getUserByUsername ext (s_targetUsername sub) = Inr (Some tu) \<and>
    getUserTweets ext (uv_id tu) (subscriptionOptions sub) = Inr (pre @ t # rest) \<and>
    processSubscriptionTweets_loop sub tu pre 0 w = (Inr m, w1) \<and>
    t_id t \<notin> p_tweetId ` set (posts w1) \<and>
    Post_save (new_Post sub tu t) (concurrent_window w1) = Inl e \<longrightarrow>
      processSubscriptionTweets ext sub w = (Inl e, concurrent_window w1)) \<and>
   (t_id t \<in> p_tweetId ` set (posts w) \<longrightarrow>
      processSubscriptionTweets_loop sub tu (t # rest) m w =
        processSubscriptionTweets_loop sub tu rest m w)"
proof -
  have origin: "subscriptions w' = subscriptions w \<and>
      (getUserByUsername ext (s_targetUsername sub) = Inl e \<or>
       getUserByUsername ext (s_targetUsername sub) = Inr None \<or>
       (\<exists>tu. getUserByUsername ext (s_targetUsername sub) = Inr (Some tu) \<and>
             (getUserTweets ext (uv_id tu) (subscriptionOptions sub) = Inl e \<or>
              (\<exists>t\<in>set (fetchedTweets ext sub). Post_save (new_Post sub tu t) w' = Inl e))))"
    if run: "processSubscriptionTweets ext sub w = (Inl e, w')"
  proof -
    have frame: "subscriptions w' = subscriptions w"
      using process_failure_frame[OF run] by simp
    from process_Inl[OF run] consider
        "getUserByUsername ext (s_targetUsername sub) = Inl e"
      | "getUserByUsername ext (s_targetUsername sub) = Inr None"
      | tu where "getUserByUsername ext (s_targetUsername sub) = Inr (Some tu)"
          "getUserTweets ext (uv_id tu) (subscriptionOptions sub) = Inl e"
      | tu tweets where "getUserByUsername ext (s_targetUsername sub) = Inr (Some tu)"
          "getUserTweets ext (uv_id tu) (subscriptionOptions sub) = Inr tweets"
          "processSubscriptionTweets_loop sub tu tweets 0 w = (Inl e, w')"
      by blast
    then show ?thesis
    proof cases
      case 1
      with frame show ?thesis by simp
    next
      case 2
      with frame show ?thesis by simp
    next
      case 3
      with frame show ?thesis by simp
    next
      case 4
      from loop_error_origin[OF 4(3)] fetchedTweets_eq[OF 4(1,2)]
      have "\<exists>t\<in>set (fetchedTweets ext sub). Post_save (new_Post sub tu t) w' = Inl e"
        by simp
      with frame 4(1) show ?thesis by blast
    qed
  qed
  have resolve: "processSubscriptionTweets ext sub w = (Inl e, w)"
    if "getUserByUsername ext (s_targetUsername sub) = Inl e"
    using that by (simp add: processSubscriptionTweets_def)
  have fetch: "processSubscriptionTweets ext sub w = (Inl e, w)"
    if "getUserByUsername ext (s_targetUsername sub) = Inr (Some tu)"
      "getUserTweets ext (uv_id tu) (subscriptionOptions sub) = Inl e"
    using that by (simp add: processSubscriptionTweets_def)
  have save: "processSubscriptionTweets ext sub w = (Inl e, concurrent_window w1)"
    if u: "getUserByUsername ext (s_targetUsername sub) = Inr (Some tu)"
      and f: "getUserTweets ext (uv_id tu) (subscriptionOptions sub) = Inr (pre @ t # rest)"
      and before: "processSubscriptionTweets_loop sub tu pre 0 w = (Inr m, w1)"
      and fresh: "t_id t \<notin> p_tweetId ` set (posts w1)"
      and rejected: "Post_save (new_Post sub tu t) (concurrent_window w1) = Inl e"
    using u f before fresh rejected by (rule process_fails_at_save(1))
  have skip: "processSubscriptionTweets_loop sub tu (t # rest) m w =
        processSubscriptionTweets_loop sub tu rest m w"
    if "t_id t \<in> p_tweetId ` set (posts w)"
  proof -
    from that obtain p where "Post_findOne_tweetId (t_id t) w = Some p"
      using Post_findOne_tweetId_None[of "t_id t" w] by (cases "Post_findOne_tweetId (t_id t) w") auto
    then show ?thesis by simp
  qed
  have c1: "processSubscriptionTweets ext sub w = (Inl e, w') \<longrightarrow>
      subscriptions w' = subscriptions w \<and>
      (getUserByUsername ext (s_targetUsername sub) = Inl e \<or>
       getUserByUsername ext (s_targetUsername sub) = Inr None \<or>
       (\<exists>tu. getUserByUsername ext (s_targetUsername sub) = Inr (Some tu) \<and>
             (getUserTweets ext (uv_id tu) (subscriptionOptions sub) = Inl e \<or>
              (\<exists>t\<in>set (fetchedTweets ext sub). Post_save (new_Post sub tu t) w' = Inl e))))"
    using origin by (rule impI)
  have c2: "getUserByUsername ext (s_targetUsername sub) = Inl e \<longrightarrow>
      processSubscriptionTweets ext sub w = (Inl e, w)"
    using resolve by (rule impI)
  have c3: "getUserByUsername ext (s_targetUsername sub) = Inr (Some tu) \<and>
      getUserTweets ext (uv_id tu) (subscriptionOptions sub) = Inl e \<longrightarrow>
      processSubscriptionTweets ext sub w = (Inl e, w)"
    using fetch by blast
  have c4: "getUserByUsername ext (s_targetUsername sub) = Inr (Some tu) \<and>
      getUserTweets ext (uv_id tu) (subscriptionOptions sub) = Inr (pre @ t # rest) \<and>
      processSubscriptionTweets_loop sub tu pre 0 w = (Inr m, w1) \<and>
      t_id t \<notin> p_tweetId ` set (posts w1) \<and>
      Post_save (new_Post sub tu t) (concurrent_window w1) = Inl e \<longrightarrow>
      processSubscriptionTweets ext sub w = (Inl e, concurrent_window w1)"
    using save by blast
  have c5: "t_id t \<in> p_tweetId ` set (posts w) \<longrightarrow>
      processSubscriptionTweets_loop sub tu (t # rest) m w =
        processSubscriptionTweets_loop sub tu rest m w"
    using skip by (rule impI)
  show ?thesis
    apply (rule conjI[OF c1])
    apply (rule conjI[OF c2])
    apply (rule conjI[OF c3])
    apply (rule conjI[OF c4])
    apply (rule c5)
    done
qed

theorem errors_propagate_unabsorbed_witness:
  "processSubscriptionTweets ext_demo (sub_demo 10 ''acme'') w_race =
     (Inl DuplicateKey, concurrent_window w_race) \<and>
   fst (processSubscriptionTweets ext_demo (sub_demo 10 ''acme'') w_race2) = Inl DuplicateKey \<and>
   map p_tweetId (posts (snd (processSubscriptionTweets ext_demo (sub_demo 10 ''acme'') w_race2))) =
     [''t1'', ''t2''] \<and>
   checkpoint 10 (snd (processSubscriptionTweets ext_demo (sub_demo 10 ''acme'') w_race2)) =
     Some 1000 \<and>
   processSubscriptionTweets ext_demo (sub_demo 12 ''nobody'') (w_demo []) =
     (Inl (Error None ''User @nobody not found: Not Found''), w_demo []) \<and>
   processSubscriptionTweets ext_demo (sub_demo 13 ''down'') (w_demo []) =
     (Inl (Error None ''Failed to fetch tweets: Service Unavailable''), w_demo [])"
proof -
  let ?sub = "sub_demo 10 ''acme''"
  let ?tu = "account ''42'' ''acme''"
  have u: "getUserByUsername ext_demo (s_targetUsername ?sub) = Inr (Some ?tu)"
    by (simp add: demo_defs run_defs)
  have f: "getUserTweets ext_demo (uv_id ?tu) (subscriptionOptions ?sub) =
             Inr ([] @ tweet_launch # [tweet_reply])"
    by (simp add: demo_defs run_defs)
  have before: "processSubscriptionTweets_loop ?sub ?tu [] 0 w_race = (Inr 0, w_race)"
    by simp
  have fresh: "t_id tweet_launch \<notin> p_tweetId ` set (posts w_race)"
    by (simp add: w_race_def w_demo_def)
  have rejected: "Post_save (new_Post ?sub ?tu tweet_launch) (concurrent_window w_race) =
                    Inl DuplicateKey"
    by (simp add: demo_defs run_defs)
  note save = errors_propagate_unabsorbed[where ext = ext_demo and sub = ?sub and w = w_race
      and e = DuplicateKey and tu = ?tu and pre = "[]" and t = tweet_launch
      and rest = "[tweet_reply]" and m = 0 and ?w1.0 = w_race,
      THEN conjunct2, THEN conjunct2, THEN conjunct2, THEN conjunct1]
  have race: "processSubscriptionTweets ext_demo ?sub w_race =
                (Inl DuplicateKey, concurrent_window w_race)"
    by (rule mp[OF save]) (intro conjI u f before fresh rejected)
  let ?w1 = "snd (processSubscriptionTweets_loop ?sub ?tu [tweet_launch] 0 w_race2)"
  have f2: "getUserTweets ext_demo (uv_id ?tu) (subscriptionOptions ?sub) =
             Inr ([tweet_launch] @ tweet_reply # [])"
    by (simp add: demo_defs run_defs)
  have "fst (processSubscriptionTweets_loop ?sub ?tu [tweet_launch] 0 w_race2) = Inr 1"
    by code_simp
  then have before2: "processSubscriptionTweets_loop ?sub ?tu [tweet_launch] 0 w_race2 =
                        (Inr 1, ?w1)"
    by (simp add: prod_eq_iff)
  have fresh2: "t_id tweet_reply \<notin> p_tweetId ` set (posts ?w1)"
    by code_simp
  have rejected2: "Post_save (new_Post ?sub ?tu tweet_reply) (concurrent_window ?w1) =
                     Inl DuplicateKey"
    by code_simp
  note later = errors_propagate_unabsorbed[where ext = ext_demo and sub = ?sub and w = w_race2
      and e = DuplicateKey and tu = ?tu and pre = "[tweet_launch]" and t = tweet_reply
      and rest = "[]" and m = 1 and ?w1.0 = ?w1,
      THEN conjunct2, THEN conjunct2, THEN conjunct2, THEN conjunct1]
  have race2: "processSubscriptionTweets ext_demo ?sub w_race2 =
                 (Inl DuplicateKey, concurrent_window ?w1)"
    by (rule mp[OF later]) (intro conjI u f2 before2 fresh2 rejected2)
  have r2a: "fst (processSubscriptionTweets ext_demo ?sub w_race2) = Inl DuplicateKey"
    by (simp only: race2 fst_conv)
  have "map p_tweetId (posts (concurrent_window ?w1)) = [''t1'', ''t2'']"
    by code_simp
  then have r2b: "map p_tweetId (posts (snd (processSubscriptionTweets ext_demo ?sub w_race2))) =
                    [''t1'', ''t2'']"
    by (simp only: race2 snd_conv)
  have "checkpoint 10 (concurrent_window ?w1) = Some 1000"
    by code_simp
  then have r2c: "checkpoint 10 (snd (processSubscriptionTweets ext_demo ?sub w_race2)) =
                    Some 1000"
    by (simp only: race2 snd_conv)
  let ?e1 = "Error None ''User @nobody not found: Not Found''"
  have nobody: "getUserByUsername ext_demo (s_targetUsername (sub_demo 12 ''nobody'')) = Inl ?e1"
    by (simp add: demo_defs run_defs)
  note resolve = errors_propagate_unabsorbed[where ext = ext_demo
      and sub = "sub_demo 12 ''nobody''" and w = "w_demo []" and e = ?e1,
      THEN conjunct2, THEN conjunct1]
  have r1: "processSubscriptionTweets ext_demo (sub_demo 12 ''nobody'') (w_demo []) =
              (Inl ?e1, w_demo [])"
    by (rule mp[OF resolve nobody])
  let ?e2 = "Error None ''Failed to fetch tweets: Service Unavailable''"
  let ?down = "account ''44'' ''down''"
  have down_u: "getUserByUsername ext_demo (s_targetUsername (sub_demo 13 ''down'')) =
                  Inr (Some ?down)"
    by (simp add: demo_defs run_defs)
  have down_f: "getUserTweets ext_demo (uv_id ?down) (subscriptionOptions (sub_demo 13 ''down'')) =
                  Inl ?e2"
    by (simp add: demo_defs run_defs)
  note fetch = errors_propagate_unabsorbed[where ext = ext_demo
      and sub = "sub_demo 13 ''down''" and w = "w_demo []" and e = ?e2 and tu = ?down,
      THEN conjunct2, THEN conjunct2, THEN conjunct1]
  have r2: "processSubscriptionTweets ext_demo (sub_demo 13 ''down'') (w_demo []) =
              (Inl ?e2, w_demo [])"
    by (rule mp[OF fetch]) (intro conjI down_u down_f)
  show ?thesis by (intro conjI race r2a r2b r2c r1 r2)
qed

text \<open>
  C4. Batch resilience of \<open>processAllUserSubscriptions\<close>. When the reconciliation
  of a due subscription throws, its error is appended to the errors list as one entry and
  the loop goes on with the subscriptions after it, from the state the failed run left.
  When all subscriptions are due, every one of them ends up either counted as processed
  or as one entry of the errors list. In particular, for three due subscriptions of which
  the second fails and the other two succeed, two are processed and the errors list is
  the single entry of the second.
\<close>

theorem batch_resilience:
  "(processAllUserSubscriptions_loop ext pre r w = (r1, w1) \<and> is_due s w1 \<and>
    processSubscriptionTweets ext s w1 = (Inl e, w2) \<longrightarrow>
      processAllUserSubscriptions_loop ext (pre @ s # rest) r w =
        processAllUserSubscriptions_loop ext rest
          (r1\<lparr>errors := errors r1 @ [s_targetUsername s @ '': '' @ err_message e]\<rparr>) w2) \<and>
   ((\<forall>x\<in>set subs. is_due x w) \<longrightarrow>
      processed (fst (processAllUserSubscriptions_loop ext subs r w)) +
      length (errors (fst (processAllUserSubscriptions_loop ext subs r w))) =
      processed r + length (errors r) + length subs) \<and>
   (is_due s1 w \<and> is_due s2 w \<and> is_due s3 w \<and>
    processSubscriptionTweets ext s1 w = (Inr n1, v1) \<and>
    processSubscriptionTweets ext s2 (delay 1000 v1) = (Inl e2, v2) \<and>
    processSubscriptionTweets ext s3 v2 = (Inr n3, v3) \<longrightarrow>
      processAllUserSubscriptions_loop ext [s1, s2, s3]
        \<lparr>processed = 0, newTweets = 0, errors = []\<rparr> w =
      (\<lparr>processed = 2, newTweets = n1 + n3,
        errors = [s_targetUsername s2 @ '': '' @ err_message e2]\<rparr>, delay 1000 v3))"
proof -
  have a: "processAllUserSubscriptions_loop ext pre r w = (r1, w1) \<and> is_due s w1 \<and>
    processSubscriptionTweets ext s w1 = (Inl e, w2) \<longrightarrow>
      processAllUserSubscriptions_loop ext (pre @ s # rest) r w =
        processAllUserSubscriptions_loop ext rest
          (r1\<lparr>errors := errors r1 @ [s_targetUsername s @ '': '' @ err_message e]\<rparr>) w2"
  proof
    assume h: "processAllUserSubscriptions_loop ext pre r w = (r1, w1) \<and> is_due s w1 \<and>
      processSubscriptionTweets ext s w1 = (Inl e, w2)"
    have "processAllUserSubscriptions_loop ext (pre @ s # rest) r w =
          processAllUserSubscriptions_loop ext (s # rest) r1 w1"
      using h by (simp add: batch_append)
    also have "\<dots> = processAllUserSubscriptions_loop ext rest
          (r1\<lparr>errors := errors r1 @ [s_targetUsername s @ '': '' @ err_message e]\<rparr>) w2"
      unfolding batch_step_due[of ext s] using h by simp
    finally show "processAllUserSubscriptions_loop ext (pre @ s # rest) r w =
        processAllUserSubscriptions_loop ext rest
          (r1\<lparr>errors := errors r1 @ [s_targetUsername s @ '': '' @ err_message e]\<rparr>) w2" .
  qed
  have b: "(\<forall>x\<in>set subs. is_due x w) \<longrightarrow>
      processed (fst (processAllUserSubscriptions_loop ext subs r w)) +
      length (errors (fst (processAllUserSubscriptions_loop ext subs r w))) =
      processed r + length (errors r) + length subs"
    using batch_count by blast
  have c: "processAllUserSubscriptions_loop ext [s1, s2, s3]
        \<lparr>processed = 0, newTweets = 0, errors = []\<rparr> w =
      (\<lparr>processed = 2, newTweets = n1 + n3,
        errors = [s_targetUsername s2 @ '': '' @ err_message e2]\<rparr>, delay 1000 v3)"
    if d1: "is_due s1 w" and d2: "is_due s2 w" and d3: "is_due s3 w"
      and p1: "processSubscriptionTweets ext s1 w = (Inr n1, v1)"
      and p2: "processSubscriptionTweets ext s2 (delay 1000 v1) = (Inl e2, v2)"
      and p3: "processSubscriptionTweets ext s3 v2 = (Inr n3, v3)"
  proof -
    have c1: "clock v1 = clock w" using p1 by (rule process_clock)
    have c2: "clock v2 = clock (delay 1000 v1)" using p2 by (rule process_clock)
    have d2': "is_due s2 (delay 1000 v1)"
      using d2 c1 by (auto intro: is_due_mono simp: delay_def)
    have d3': "is_due s3 v2"
      using d3 c1 c2 by (auto intro: is_due_mono simp: delay_def)
    show ?thesis
      unfolding batch_step_due[of ext s1] batch_step_due[of ext s2] batch_step_due[of ext s3]
      using d1 d2' d3' p1 p2 p3 by simp
  qed
  have c': "is_due s1 w \<and> is_due s2 w \<and> is_due s3 w \<and>
    processSubscriptionTweets ext s1 w = (Inr n1, v1) \<and>
    processSubscriptionTweets ext s2 (delay 1000 v1) = (Inl e2, v2) \<and>
    processSubscriptionTweets ext s3 v2 = (Inr n3, v3) \<longrightarrow>
      processAllUserSubscriptions_loop ext [s1, s2, s3]
        \<lparr>processed = 0, newTweets = 0, errors = []\<rparr> w =
      (\<lparr>processed = 2, newTweets = n1 + n3,
        errors = [s_targetUsername s2 @ '': '' @ err_message e2]\<rparr>, delay 1000 v3)"
    using c by blast
  show ?thesis
    apply (rule conjI[OF a])
    apply (rule conjI[OF b])
    apply (rule c')
    done
qed

theorem batch_resilience_witness:
  "fst (processAllUserSubscriptions ext_demo 1 w_three) =
     \<lparr>processed = 2, newTweets = 2,
      errors = [''down: Failed to fetch tweets: Service Unavailable'']\<rparr>"
proof -
  let ?a = "sub_demo 10 ''acme''"
  let ?d = "sub_demo 13 ''down''"
  let ?q = "sub_demo 14 ''quiet''"
  let ?e = "Error None ''Failed to fetch tweets: Service Unavailable''"
  let ?v1 = "snd (processSubscriptionTweets ext_demo ?a w_three)"
  let ?v3 = "advance_checkpoint ?q (delay 1000 ?v1)"
  have subs: "filter (\<lambda>s. s_userId s = 1 \<and> s_isActive s) (subscriptions w_three) = [?a, ?d, ?q]"
    by (simp add: w_three_def w_demo_def sub_demo_def)
  have due: "is_due ?a w_three" "is_due ?d w_three" "is_due ?q w_three"
    by (simp_all add: is_due_def w_three_def w_demo_def sub_demo_def)
  have "fst (processSubscriptionTweets ext_demo ?a w_three) = Inr 2"
    by (simp add: w_three_def demo_defs run_defs)
  then have p1: "processSubscriptionTweets ext_demo ?a w_three = (Inr 2, ?v1)"
    by (simp add: prod_eq_iff)
  have p2: "processSubscriptionTweets ext_demo ?d (delay 1000 ?v1) = (Inl ?e, delay 1000 ?v1)"
    by (simp add: processSubscriptionTweets_def getUserByUsername_def getUserTweets_def
        getUserTweets_catch_def ext_demo_def sub_demo_def account_def)
  have p3: "processSubscriptionTweets ext_demo ?q (delay 1000 ?v1) = (Inr 0, ?v3)"
    by (simp add: processSubscriptionTweets_def getUserByUsername_def getUserTweets_def
        advance_checkpoint_def ext_demo_def sub_demo_def account_def)
  note three = batch_resilience[of ext_demo "[]" "\<lparr>processed = 0, newTweets = 0, errors = []\<rparr>"
      w_three "\<lparr>processed = 0, newTweets = 0, errors = []\<rparr>" w_three ?a ?e w_three "[]" "[]"
      ?a ?d ?q 2 ?v1 ?e "delay 1000 ?v1" 0 ?v3,
      THEN conjunct2, THEN conjunct2]
  have loop: "processAllUserSubscriptions_loop ext_demo [?a, ?d, ?q]
          \<lparr>processed = 0, newTweets = 0, errors = []\<rparr> w_three =
        (\<lparr>processed = 2, newTweets = 2 + 0,
          errors = [s_targetUsername ?d @ '': '' @ err_message ?e]\<rparr>, delay 1000 ?v3)"
    by (rule mp[OF three]) (intro conjI due p1 p2 p3)
  have "processAllUserSubscriptions ext_demo 1 w_three =
        (\<lparr>processed = 2, newTweets = 2 + 0,
          errors = [s_targetUsername ?d @ '': '' @ err_message ?e]\<rparr>, delay 1000 ?v3)"
    by (simp only: processAllUserSubscriptions_def subs Let_def loop)
  then have "fst (processAllUserSubscriptions ext_demo 1 w_three) =
        \<lparr>processed = 2, newTweets = 2 + 0,
          errors = [s_targetUsername ?d @ '': '' @ err_message ?e]\<rparr>"
    by (simp only: fst_conv)
  then show ?thesis by (simp add: sub_demo_def)
qed

text \<open>
  C5, the claim as stated fails for a keyword list whose join is not a well-formed
  pattern. With the keywords \<open>launch\<close> and \<open>c++\<close> the constructor of the regular
  expression throws inside \<open>getUserTweets\<close>: the fetch fails, and the post
  \<open>Launch day\<close>, which contains the first keyword, is not kept; the run of the
  subscription fails with the store as it was.
\<close>

theorem keyword_list_not_a_pattern:
  "includes_i (t_text tweet_launch) ''launch'' \<and>
   userTimeline ext_demo ''42''
     (timelineParams
        (subscriptionOptions ((sub_demo 10 ''acme'')\<lparr>s_keywords := [''launch'', ''c++'']\<rparr>))) =
     Inr (Some [tweet_launch, tweet_reply]) \<and>
   getUserTweets ext_demo ''42''
     (subscriptionOptions ((sub_demo 10 ''acme'')\<lparr>s_keywords := [''launch'', ''c++'']\<rparr>)) =
     Inl (Error None ''Failed to fetch tweets: Invalid regular expression'') \<and>
   processSubscriptionTweets ext_demo ((sub_demo 10 ''acme'')\<lparr>s_keywords := [''launch'', ''c++'']\<rparr>)
     (w_demo [(sub_demo 10 ''acme'')\<lparr>s_keywords := [''launch'', ''c++'']\<rparr>]) =
     (Inl (Error None ''Failed to fetch tweets: Invalid regular expression''),
      w_demo [(sub_demo 10 ''acme'')\<lparr>s_keywords := [''launch'', ''c++'']\<rparr>])"
proof -
  have a: "includes_i (t_text tweet_launch) ''launch''"
    by code_simp
  have pat: "join ''|'' [''launch'', ''c++''] = ''launch|c++''"
    by simp
  have bad: "\<not> alternation_pattern ''launch|c++''"
    by (simp add: alternation_pattern_def isSyntaxCharacter_def)
  have b: "userTimeline ext_demo ''42''
     (timelineParams
        (subscriptionOptions ((sub_demo 10 ''acme'')\<lparr>s_keywords := [''launch'', ''c++'']\<rparr>))) =
     Inr (Some [tweet_launch, tweet_reply])"
    by (simp add: ext_demo_def)
  have c: "getUserTweets ext_demo ''42''
     (subscriptionOptions ((sub_demo 10 ''acme'')\<lparr>s_keywords := [''launch'', ''c++'']\<rparr>)) =
     Inl (Error None ''Failed to fetch tweets: Invalid regular expression'')"
    using bad
    by (simp add: getUserTweets_def subscriptionOptions_def sub_demo_def ext_demo_def
        getUserTweets_catch_def Let_def)
  have d: "processSubscriptionTweets ext_demo
     ((sub_demo 10 ''acme'')\<lparr>s_keywords := [''launch'', ''c++'']\<rparr>)
     (w_demo [(sub_demo 10 ''acme'')\<lparr>s_keywords := [''launch'', ''c++'']\<rparr>]) =
     (Inl (Error None ''Failed to fetch tweets: Invalid regular expression''),
      w_demo [(sub_demo 10 ''acme'')\<lparr>s_keywords := [''launch'', ''c++'']\<rparr>])"
    by (rule process_fails_at_fetch[where tu = "account ''42'' ''acme''"])
       (simp add: getUserByUsername_def ext_demo_def sub_demo_def, simp add: c account_def)
  show ?thesis by (intro conjI a b c d)
qed

text \<open>
  C5, amended. Keyword filter of \<open>getUserTweets\<close>. With a non-empty keyword list and
  a non-empty page, the keywords joined with \<open>|\<close> are compiled as one regular
  expression under the \<open>i\<close> flag. If the pattern compiles, the posts returned are
  exactly the fetched posts whose text passes its test; for keywords of ASCII characters
  none of which is a syntax character, under an engine that follows ECMAScript on such
  patterns, these are exactly the posts whose text contains at least one keyword, the case
  of the letters aside, and a post matching no keyword is dropped although the source
  returned it. If the pattern does not compile, the fetch fails with the message of the
  syntax error and no post is returned. With no keyword, every fetched post is kept.
\<close>

theorem keyword_filter_regex_union:
  assumes source: "userTimeline ext uid (timelineParams opts) = Inr (Some data)"
  shows "(o_keywords opts = Some ks \<and> ks \<noteq> [] \<and> RegExp_i ext (join ''|'' ks) = Inr rx \<longrightarrow>
            getUserTweets ext uid opts = Inr (filter (\<lambda>tweet. rx (t_text tweet)) data)) \<and>
         (o_keywords opts = Some ks \<and> ks \<noteq> [] \<and> data \<noteq> [] \<and>
          RegExp_i ext (join ''|'' ks) = Inl syntaxError \<longrightarrow>
            getUserTweets ext uid opts =
              Inl (Error None (''Failed to fetch tweets: '' @ syntaxError))) \<and>
         (conforming_engine ext \<and> o_keywords opts = Some ks \<and> ks \<noteq> [] \<and>
          (\<forall>k\<in>set ks. literal_keyword k) \<longrightarrow>
            getUserTweets ext uid opts =
              Inr (filter (\<lambda>tweet. \<exists>k\<in>set ks. includes_i (t_text tweet) k) data)) \<and>
         (o_keywords opts = None \<or> o_keywords opts = Some [] \<longrightarrow>
            getUserTweets ext uid opts = Inr data)"
proof -
  have regex: "getUserTweets ext uid opts = Inr (filter (\<lambda>tweet. rx (t_text tweet)) data)"
    if "o_keywords opts = Some ks" "ks \<noteq> []" "RegExp_i ext (join ''|'' ks) = Inr rx" for rx
    using that source by (cases data) (simp_all add: getUserTweets_def)
  have a: "o_keywords opts = Some ks \<and> ks \<noteq> [] \<and> RegExp_i ext (join ''|'' ks) = Inr rx \<longrightarrow>
            getUserTweets ext uid opts = Inr (filter (\<lambda>tweet. rx (t_text tweet)) data)"
    using regex by blast
  have throw: "getUserTweets ext uid opts =
              Inl (Error None (''Failed to fetch tweets: '' @ syntaxError))"
    if "o_keywords opts = Some ks" "ks \<noteq> []" "data \<noteq> []"
      "RegExp_i ext (join ''|'' ks) = Inl syntaxError"
    using that source by (simp add: getUserTweets_def getUserTweets_catch_def)
  have t: "o_keywords opts = Some ks \<and> ks \<noteq> [] \<and> data \<noteq> [] \<and>
          RegExp_i ext (join ''|'' ks) = Inl syntaxError \<longrightarrow>
            getUserTweets ext uid opts =
              Inl (Error None (''Failed to fetch tweets: '' @ syntaxError))"
    using throw by blast
  have b: "conforming_engine ext \<and> o_keywords opts = Some ks \<and> ks \<noteq> [] \<and>
          (\<forall>k\<in>set ks. literal_keyword k) \<longrightarrow>
            getUserTweets ext uid opts =
              Inr (filter (\<lambda>tweet. \<exists>k\<in>set ks. includes_i (t_text tweet) k) data)"
  proof
    assume h: "conforming_engine ext \<and> o_keywords opts = Some ks \<and> ks \<noteq> [] \<and>
          (\<forall>k\<in>set ks. literal_keyword k)"
    then have "RegExp_i ext (join ''|'' ks) = Inr (\<lambda>txt. \<exists>k\<in>set ks. includes_i txt k)"
      by (intro keywords_regex) simp_all
    with h show "getUserTweets ext uid opts =
              Inr (filter (\<lambda>tweet. \<exists>k\<in>set ks. includes_i (t_text tweet) k) data)"
      by (intro regex) simp_all
  qed
  have c: "o_keywords opts = None \<or> o_keywords opts = Some [] \<longrightarrow>
            getUserTweets ext uid opts = Inr data"
    using source by (cases data) (auto simp: getUserTweets_def)
  show ?thesis
    apply (rule conjI[OF a])
    apply (rule conjI[OF t])
    apply (rule conjI[OF b])
    apply (rule c)
    done
qed

theorem keyword_filter_regex_union_witness:
  "getUserTweets ext_demo ''42''
     (subscriptionOptions ((sub_demo 10 ''acme'')\<lparr>s_keywords := [''launch'']\<rparr>)) =
     Inr [tweet_launch] \<and>
   t_text tweet_launch = ''Launch day'' \<and>
   getUserTweets ext_demo ''42''
     (subscriptionOptions ((sub_demo 10 ''acme'')\<lparr>s_keywords := [''day'', ''(hello'']\<rparr>)) =
     Inl (Error None ''Failed to fetch tweets: Invalid regular expression'') \<and>
   getUserTweets ext_demo ''42''
     (subscriptionOptions ((sub_demo 10 ''acme'')\<lparr>s_keywords := [''HELLO'', ''x'']\<rparr>)) =
     Inr [tweet_reply] \<and>
   getUserTweets ext_demo ''42'' (subscriptionOptions (sub_demo 10 ''acme'')) =
     Inr [tweet_launch, tweet_reply]"
proof -
  let ?k = "subscriptionOptions ((sub_demo 10 ''acme'')\<lparr>s_keywords := [''launch'']\<rparr>)"
  let ?b = "subscriptionOptions ((sub_demo 10 ''acme'')\<lparr>s_keywords := [''day'', ''(hello'']\<rparr>)"
  let ?r = "subscriptionOptions ((sub_demo 10 ''acme'')\<lparr>s_keywords := [''HELLO'', ''x'']\<rparr>)"
  let ?n = "subscriptionOptions (sub_demo 10 ''acme'')"
  have src: "userTimeline ext_demo ''42'' (timelineParams ?k) = Inr (Some [tweet_launch, tweet_reply])"
    "userTimeline ext_demo ''42'' (timelineParams ?n) = Inr (Some [tweet_launch, tweet_reply])"
    "userTimeline ext_demo ''42'' (timelineParams ?b) = Inr (Some [tweet_launch, tweet_reply])"
    "userTimeline ext_demo ''42'' (timelineParams ?r) = Inr (Some [tweet_launch, tweet_reply])"
    by (simp_all add: ext_demo_def)
  have kw: "o_keywords ?k = Some [''launch'']" "o_keywords ?n = Some []"
    "o_keywords ?b = Some [''day'', ''(hello'']" "o_keywords ?r = Some [''HELLO'', ''x'']"
    by (simp_all add: subscriptionOptions_def sub_demo_def)
  have lit: "\<forall>k\<in>set [''launch'']. literal_keyword k"
    by (simp add: literal_keyword_def isSyntaxCharacter_def isASCII_def)
  have "getUserTweets ext_demo ''42'' ?k =
          Inr (filter (\<lambda>tweet. \<exists>k\<in>set [''launch'']. includes_i (t_text tweet) k)
                 [tweet_launch, tweet_reply])"
    by (rule mp[OF keyword_filter_regex_union[OF src(1),
            THEN conjunct2, THEN conjunct2, THEN conjunct1]])
       (intro conjI ext_demo_conforming kw(1) lit, simp)
  moreover have "includes_i (t_text tweet_launch) ''launch''"
    by code_simp
  moreover have "\<not> includes_i (t_text tweet_reply) ''launch''"
    by code_simp
  ultimately have first: "getUserTweets ext_demo ''42'' ?k = Inr [tweet_launch]"
    by simp
  have bad: "RegExp_i ext_demo ''day|(hello'' = Inl ''Invalid regular expression''"
    by (simp add: ext_demo_def alternation_pattern_def isSyntaxCharacter_def)
  have "getUserTweets ext_demo ''42'' ?b =
          Inl (Error None (''Failed to fetch tweets: '' @ ''Invalid regular expression''))"
    by (rule mp[OF keyword_filter_regex_union[OF src(3), where ks = "[''day'', ''(hello'']"
            and syntaxError = "''Invalid regular expression''", THEN conjunct2, THEN conjunct1]])
       (simp add: kw(3) bad tweet_launch_def)
  then have thrown: "getUserTweets ext_demo ''42'' ?b =
          Inl (Error None ''Failed to fetch tweets: Invalid regular expression'')"
    by simp
  have good: "RegExp_i ext_demo ''HELLO|x'' = Inr (test_alternation_i ''HELLO|x'')"
    by (simp add: ext_demo_def alternation_pattern_def isSyntaxCharacter_def isASCII_def)
  have "getUserTweets ext_demo ''42'' ?r =
          Inr (filter (\<lambda>tweet. test_alternation_i ''HELLO|x'' (t_text tweet))
                 [tweet_launch, tweet_reply])"
    by (rule mp[OF keyword_filter_regex_union[OF src(4), where ks = "[''HELLO'', ''x'']"
            and rx = "test_alternation_i ''HELLO|x''", THEN conjunct1]])
       (simp add: kw(4) good)
  moreover have "\<not> test_alternation_i ''HELLO|x'' (t_text tweet_launch)"
    by code_simp
  moreover have "test_alternation_i ''HELLO|x'' (t_text tweet_reply)"
    by code_simp
  ultimately have third: "getUserTweets ext_demo ''42'' ?r = Inr [tweet_reply]"
    by simp
  have second: "getUserTweets ext_demo ''42'' ?n = Inr [tweet_launch, tweet_reply]"
    by (rule mp[OF keyword_filter_regex_union[OF src(2),
            THEN conjunct2, THEN conjunct2, THEN conjunct2]])
       (simp add: kw(2))
  have "t_text tweet_launch = ''Launch day''" by (simp add: tweet_launch_def)
  with first thrown third second show ?thesis by simp
qed

text \<open>
  C6, the claim as stated fails: the subscription has \<open>includeReplies = false\<close>, the
  request asks the source to exclude replies, the source returns a post marked
  \<open>replied_to\<close> all the same, and the run stores it (flagged as a reply).
\<close>

theorem reply_stored_despite_exclusion:
  "\<not> s_includeReplies (sub_demo 10 ''acme'') \<and>
   ''replies'' \<in> set (exclude (timelineParams (subscriptionOptions (sub_demo 10 ''acme'')))) \<and>
   tweet_reply \<in> set (fetchedTweets ext_demo (sub_demo 10 ''acme'')) \<and>
   t_referenced_tweets tweet_reply = Some [\<lparr>ref_type = ''replied_to'', ref_id = ''t0''\<rparr>] \<and>
   (\<exists>p \<in> set (posts (snd (processSubscriptionTweets ext_demo (sub_demo 10 ''acme'')
                             (w_demo [sub_demo 10 ''acme''])))).
      p_tweetId p = t_id tweet_reply \<and> p_isReply p)"
proof -
  have "\<not> s_includeReplies (sub_demo 10 ''acme'')"
    by (simp add: sub_demo_def)
  moreover have "''replies'' \<in> set (exclude (timelineParams (subscriptionOptions (sub_demo 10 ''acme''))))"
    by (simp add: sub_demo_def subscriptionOptions_def timelineParams_def)
  moreover have "tweet_reply \<in> set (fetchedTweets ext_demo (sub_demo 10 ''acme''))"
    by (simp add: acme_fetched)
  moreover have "t_referenced_tweets tweet_reply = Some [\<lparr>ref_type = ''replied_to'', ref_id = ''t0''\<rparr>]"
    by (simp add: tweet_reply_def)
  moreover have "\<exists>p \<in> set (posts (snd (processSubscriptionTweets ext_demo (sub_demo 10 ''acme'')
                             (w_demo [sub_demo 10 ''acme''])))).
      p_tweetId p = t_id tweet_reply \<and> p_isReply p"
    by (simp add: acme_run new_Post_fields new_Post_flags) (simp add: tweet_reply_def)
  ultimately show ?thesis by blast
qed

text \<open>
  C6, amended. With \<open>includeReplies = false\<close> (\<open>includeRetweets = false\<close>) the fetch
  request asks the source to exclude replies (retweets), and that is all the exclusion
  there is: after a successful run every post the fetch returned is in the store, and a
  row the run creates is flagged \<open>isReply\<close> (\<open>isRetweet\<close>) exactly when the post's
  references have a \<open>replied_to\<close> (\<open>retweeted\<close>) entry.
\<close>

theorem exclusion_only_in_request:
  "(''replies'' \<in> set (exclude (timelineParams (subscriptionOptions sub))) \<longleftrightarrow>
      \<not> s_includeReplies sub) \<and>
   (''retweets'' \<in> set (exclude (timelineParams (subscriptionOptions sub))) \<longleftrightarrow>
      \<not> s_includeRetweets sub) \<and>
   (processSubscriptionTweets ext sub w = (Inr n, w') \<longrightarrow>
      (\<forall>t\<in>set (fetchedTweets ext sub). \<exists>p\<in>set (posts w'). p_tweetId p = t_id t)) \<and>
   (p_isReply (stamp now (new_Post sub tu t)) \<longleftrightarrow>
      (\<exists>refs. t_referenced_tweets t = Some refs \<and>
         (\<exists>ref\<in>set refs. ref_type ref = ''replied_to''))) \<and>
   (p_isRetweet (stamp now (new_Post sub tu t)) \<longleftrightarrow>
      (\<exists>refs. t_referenced_tweets t = Some refs \<and>
         (\<exists>ref\<in>set refs. ref_type ref = ''retweeted'')))"
proof -
  have a: "''replies'' \<in> set (exclude (timelineParams (subscriptionOptions sub))) \<longleftrightarrow>
      \<not> s_includeReplies sub"
    by (simp add: subscriptionOptions_def timelineParams_def)
  have b: "''retweets'' \<in> set (exclude (timelineParams (subscriptionOptions sub))) \<longleftrightarrow>
      \<not> s_includeRetweets sub"
    by (simp add: subscriptionOptions_def timelineParams_def)
  have c: "processSubscriptionTweets ext sub w = (Inr n, w') \<longrightarrow>
      (\<forall>t\<in>set (fetchedTweets ext sub). \<exists>p\<in>set (posts w'). p_tweetId p = t_id t)"
  proof
    assume "processSubscriptionTweets ext sub w = (Inr n, w')"
    from process_success_present[OF this]
    show "\<forall>t\<in>set (fetchedTweets ext sub). \<exists>p\<in>set (posts w'). p_tweetId p = t_id t"
      by force
  qed
  show ?thesis
    apply (rule conjI[OF a])
    apply (rule conjI[OF b])
    apply (rule conjI[OF c])
    apply (rule conjI[OF new_Post_flags(1)])
    apply (rule new_Post_flags(2))
    done
qed

theorem exclusion_only_in_request_witness:
  "''replies'' \<in> set (exclude (timelineParams (subscriptionOptions (sub_demo 10 ''acme'')))) \<and>
   (\<exists>p\<in>set (posts (snd (processSubscriptionTweets ext_demo (sub_demo 10 ''acme'')
                           (w_demo [sub_demo 10 ''acme''])))). p_tweetId p = ''t2'')"
proof -
  let ?sub = "sub_demo 10 ''acme''"
  let ?run = "processSubscriptionTweets ext_demo ?sub (w_demo [?sub])"
  note inst = exclusion_only_in_request[of ?sub ext_demo "w_demo [?sub]" 2 "snd ?run"]
  have run: "?run = (Inr 2, snd ?run)" by (simp add: acme_run)
  have "\<not> s_includeReplies ?sub" by (simp add: sub_demo_def)
  with inst[THEN conjunct1]
  have first: "''replies'' \<in> set (exclude (timelineParams (subscriptionOptions ?sub)))"
    by (rule iffD2)
  have "\<forall>t\<in>set (fetchedTweets ext_demo ?sub). \<exists>p\<in>set (posts (snd ?run)). p_tweetId p = t_id t"
    by (rule mp[OF inst[THEN conjunct2, THEN conjunct2, THEN conjunct1] run])
  then have "\<exists>p\<in>set (posts (snd ?run)). p_tweetId p = t_id tweet_reply"
    by (simp add: acme_fetched)
  then have "\<exists>p\<in>set (posts (snd ?run)). p_tweetId p = ''t2''"
    by (simp add: tweet_reply_def)
  with first show ?thesis by (rule conjI)
qed

text \<open>
  C7. Subscription invariants. In every reachable state no two subscriptions have the
  same (user, target account) pair, and every \<open>checkInterval\<close> lies between 15 and
  1440 minutes. A create request for a pair that already has a subscription never
  inserts a row (the rows keep their identifiers, the answer is not 201), and it changes
  the store only when it answers 200. When the existing subscription is active the
  request fails and changes nothing. When it is inactive and the request gets as far as
  the store (valid body, service available, account resolved), the answer is 200 and the
  existing record is reactivated in place: the row with its identifier is active
  afterwards, with the interval, keywords and flags of the request and the checkpoint at
  the current time, every other row is as it was, and the pair finds that record.
\<close>

theorem subscription_invariants:
  assumes "reachable w"
  shows "distinct (map sub_key (subscriptions w)) \<and>
         (\<forall>s\<in>set (subscriptions w). 15 \<le> s_checkInterval s \<and> s_checkInterval s \<le> 1440) \<and>
         (\<forall>ext userId body existing.
            find (\<lambda>s. s_userId s = userId \<and>
                      s_targetUsername s = toLowerCase (trim (b_targetUsername body)))
              (subscriptions w) = Some existing \<longrightarrow>
            map s_id (subscriptions (snd (createSubscription ext userId body w))) =
              map s_id (subscriptions w) \<and>
            status (fst (createSubscription ext userId body w)) \<noteq> 201 \<and>
            (status (fst (createSubscription ext userId body w)) \<noteq> 200 \<longrightarrow>
               snd (createSubscription ext userId body w) = w) \<and>
            (s_isActive existing \<longrightarrow>
               snd (createSubscription ext userId body w) = w \<and>
               status (fst (createSubscription ext userId body w)) \<noteq> 200) \<and>
            (\<not> s_isActive existing \<and> b_targetUsername body \<noteq> [] \<and>
             (\<forall>i. b_checkInterval body = Some i \<longrightarrow> 15 \<le> i \<and> i \<le> 1440) \<and>
             createForUser ext w userId \<noteq> None \<and>
             (\<exists>tu. getUserByUsername ext (toLowerCase (trim (b_targetUsername body))) = Inr tu) \<longrightarrow>
               status (fst (createSubscription ext userId body w)) = 200 \<and>
               subscriptions (snd (createSubscription ext userId body w)) =
                 map (\<lambda>s. if s_id s = s_id existing
                           then s\<lparr>s_isActive := True,
                             s_checkInterval :=
                               (case b_checkInterval body of None \<Rightarrow> 60 | Some i \<Rightarrow> i),
                             s_keywords :=
                               map trim (case b_keywords body of None \<Rightarrow> [] | Some ks \<Rightarrow> ks),
                             s_includeReplies :=
                               (case b_includeReplies body of None \<Rightarrow> False | Some b \<Rightarrow> b),
                             s_includeRetweets :=
                               (case b_includeRetweets body of None \<Rightarrow> False | Some b \<Rightarrow> b),
                             s_lastChecked := clock w, s_updatedAt := Some (clock w)\<rparr>
                           else s) (subscriptions w) \<and>
               find (\<lambda>s. s_userId s = userId \<and>
                         s_targetUsername s = toLowerCase (trim (b_targetUsername body)))
                 (subscriptions (snd (createSubscription ext userId body w))) =
                 Some (existing\<lparr>s_isActive := True,
                         s_checkInterval :=
                           (case b_checkInterval body of None \<Rightarrow> 60 | Some i \<Rightarrow> i),
                         s_keywords :=
                           map trim (case b_keywords body of None \<Rightarrow> [] | Some ks \<Rightarrow> ks),
                         s_includeReplies :=
                           (case b_includeReplies body of None \<Rightarrow> False | Some b \<Rightarrow> b),
                         s_includeRetweets :=
                           (case b_includeRetweets body of None \<Rightarrow> False | Some b \<Rightarrow> b),
                         s_lastChecked := clock w, s_updatedAt := Some (clock w)\<rparr>)))"
proof -
  from assms have inv: "subscription_invariant w" and ids: "ids_fresh w"
    using reachable_invariants by blast+
  then have a: "distinct (map sub_key (subscriptions w))"
    by (simp add: subscription_invariant_def)
  from inv have b: "\<forall>s\<in>set (subscriptions w). 15 \<le> s_checkInterval s \<and> s_checkInterval s \<le> 1440"
    by (simp add: subscription_invariant_def list_all_iff)
  from ids have dist: "distinct (map s_id (subscriptions w))"
    by (simp add: ids_fresh_def)
  show ?thesis
  proof (intro conjI allI impI)
    show "distinct (map sub_key (subscriptions w))" by (rule a)
    show "\<forall>s\<in>set (subscriptions w). 15 \<le> s_checkInterval s \<and> s_checkInterval s \<le> 1440"
      by (rule b)
  next
    fix ext :: externals and userId :: objectId and body :: CreateSubscriptionBody
      and existing :: ISubscription
    assume found: "find (\<lambda>s. s_userId s = userId \<and>
                      s_targetUsername s = toLowerCase (trim (b_targetUsername body)))
              (subscriptions w) = Some existing"
    note old = create_existing[OF found, of ext]
    show "map s_id (subscriptions (snd (createSubscription ext userId body w))) =
              map s_id (subscriptions w)"
      using old by (rule conjunct1)
    show "status (fst (createSubscription ext userId body w)) \<noteq> 201"
      using old by blast
    {
      assume "status (fst (createSubscription ext userId body w)) \<noteq> 200"
      with found show "snd (createSubscription ext userId body w) = w"
        by (rule create_existing_unchanged)
    }
    {
      assume act: "s_isActive existing"
      with old show "snd (createSubscription ext userId body w) = w" by simp
      from act old show "status (fst (createSubscription ext userId body w)) \<noteq> 200" by simp
    }
    {
      assume h: "\<not> s_isActive existing \<and> b_targetUsername body \<noteq> [] \<and>
             (\<forall>i. b_checkInterval body = Some i \<longrightarrow> 15 \<le> i \<and> i \<le> 1440) \<and>
             createForUser ext w userId \<noteq> None \<and>
             (\<exists>tu. getUserByUsername ext (toLowerCase (trim (b_targetUsername body))) = Inr tu)"
      then obtain tu where
        tu: "getUserByUsername ext (toLowerCase (trim (b_targetUsername body))) = Inr tu"
        by blast
      from h have v1: "b_targetUsername body \<noteq> []"
        and v2: "\<forall>i. b_checkInterval body = Some i \<longrightarrow> 15 \<le> i \<and> i \<le> 1440"
        and svc: "createForUser ext w userId \<noteq> None"
        and inactive: "\<not> s_isActive existing"
        by blast+
      note re = reactivate_in_place[OF v1 v2 svc tu found inactive dist]
      show "status (fst (createSubscription ext userId body w)) = 200"
        by (rule re(1))
      show "subscriptions (snd (createSubscription ext userId body w)) =
                 map (\<lambda>s. if s_id s = s_id existing
                           then s\<lparr>s_isActive := True,
                             s_checkInterval :=
                               (case b_checkInterval body of None \<Rightarrow> 60 | Some i \<Rightarrow> i),
                             s_keywords :=
                               map trim (case b_keywords body of None \<Rightarrow> [] | Some ks \<Rightarrow> ks),
                             s_includeReplies :=
                               (case b_includeReplies body of None \<Rightarrow> False | Some b \<Rightarrow> b),
                             s_includeRetweets :=
                               (case b_includeRetweets body of None \<Rightarrow> False | Some b \<Rightarrow> b),
                             s_lastChecked := clock w, s_updatedAt := Some (clock w)\<rparr>
                           else s) (subscriptions w)"
        by (rule re(2))
      show "find (\<lambda>s. s_userId s = userId \<and>
                         s_targetUsername s = toLowerCase (trim (b_targetUsername body)))
                 (subscriptions (snd (createSubscription ext userId body w))) =
                 Some (existing\<lparr>s_isActive := True,
                         s_checkInterval :=
                           (case b_checkInterval body of None \<Rightarrow> 60 | Some i \<Rightarrow> i),
                         s_keywords :=
                           map trim (case b_keywords body of None \<Rightarrow> [] | Some ks \<Rightarrow> ks),
                         s_includeReplies :=
                           (case b_includeReplies body of None \<Rightarrow> False | Some b \<Rightarrow> b),
                         s_includeRetweets :=
                           (case b_includeRetweets body of None \<Rightarrow> False | Some b \<Rightarrow> b),
                         s_lastChecked := clock w, s_updatedAt := Some (clock w)\<rparr>)"
        by (rule re(3))
    }
  qed
qed

theorem subscription_invariants_witness:
  "map sub_static (subscriptions (perform ext_demo (CreateSubscription 1 body_demo) (w_demo []))) =
     [(20, (1, ''acme''), 30)] \<and>
   map s_isActive (subscriptions
      (perform ext_demo (DeleteSubscription 20 1)
         (perform ext_demo (CreateSubscription 1 body_demo) (w_demo [])))) = [False] \<and>
   status (fst (createSubscription ext_demo 1 (body_demo\<lparr>b_checkInterval := None\<rparr>)
      (perform ext_demo (DeleteSubscription 20 1)
         (perform ext_demo (CreateSubscription 1 body_demo) (w_demo []))))) = 200 \<and>
   map sub_static (subscriptions
      (perform ext_demo (CreateSubscription 1 (body_demo\<lparr>b_checkInterval := None\<rparr>))
         (perform ext_demo (DeleteSubscription 20 1)
            (perform ext_demo (CreateSubscription 1 body_demo) (w_demo []))))) =
     [(20, (1, ''acme''), 60)] \<and>
   map s_isActive (subscriptions
      (perform ext_demo (CreateSubscription 1 (body_demo\<lparr>b_checkInterval := None\<rparr>))
         (perform ext_demo (DeleteSubscription 20 1)
            (perform ext_demo (CreateSubscription 1 body_demo) (w_demo []))))) = [True] \<and>
   distinct (map sub_key (subscriptions
      (perform ext_demo (CreateSubscription 1 (body_demo\<lparr>b_checkInterval := None\<rparr>))
         (perform ext_demo (DeleteSubscription 20 1)
            (perform ext_demo (CreateSubscription 1 body_demo) (w_demo []))))))"
proof -
  let ?again = "body_demo\<lparr>b_checkInterval := None\<rparr>"
  let ?w1 = "perform ext_demo (CreateSubscription 1 body_demo) (w_demo [])"
  let ?w2 = "perform ext_demo (DeleteSubscription 20 1) ?w1"
  let ?w3 = "perform ext_demo (CreateSubscription 1 ?again) ?w2"
  let ?old = "\<lparr>s_id = 20, s_userId = 1, s_targetUsername = ''acme'', s_isActive = False,
               s_checkInterval = 30, s_lastChecked = 5000000, s_keywords = [''launch''],
               s_includeReplies = True, s_includeRetweets = False,
               s_createdAt = Some 5000000, s_updatedAt = Some 5000000\<rparr>"
  have "reachable (w_demo [])"
    by (rule reachable.initial) (simp add: w_demo_def)
  then have "reachable ?w1" by (rule reachable.step)
  then have r2: "reachable ?w2" by (rule reachable.step)
  then have r3: "reachable ?w3" by (rule reachable.step)
  have one: "map sub_static (subscriptions ?w1) = [(20, (1, ''acme''), 30)]"
    by code_simp
  have subs2: "subscriptions ?w2 = [?old]"
    by code_simp
  have clock2: "clock ?w2 = 5000000"
    by code_simp
  have target: "toLowerCase (trim (b_targetUsername ?again)) = ''acme''"
    by code_simp
  have found: "find (\<lambda>s. s_userId s = 1 \<and>
                      s_targetUsername s = toLowerCase (trim (b_targetUsername ?again)))
              (subscriptions ?w2) = Some ?old"
    by (simp only: target subs2) simp
  have inactive: "\<not> s_isActive ?old"
    by simp
  have valid: "b_targetUsername ?again \<noteq> []"
    "\<forall>i. b_checkInterval ?again = Some i \<longrightarrow> 15 \<le> i \<and> i \<le> 1440"
    by (simp_all add: body_demo_def)
  have service: "createForUser ext_demo ?w2 1 \<noteq> None"
    by code_simp
  have "getUserByUsername ext_demo ''acme'' = Inr (Some (account ''42'' ''acme''))"
    by (simp add: getUserByUsername_def ext_demo_def)
  then have account: "\<exists>tu. getUserByUsername ext_demo
                         (toLowerCase (trim (b_targetUsername ?again))) = Inr tu"
    by (simp only: target) blast
  note reactivation = subscription_invariants[OF r2, THEN conjunct2, THEN conjunct2, rule_format,
      OF found, of ext_demo, THEN conjunct2, THEN conjunct2, THEN conjunct2, THEN conjunct2]
  note re = mp[OF reactivation, OF conjI[OF inactive conjI[OF valid(1) conjI[OF valid(2)
            conjI[OF service account]]]]]
  have ok: "status (fst (createSubscription ext_demo 1 ?again ?w2)) = 200"
    using re by (rule conjunct1)
  have kw: "trim ''launch '' = ''launch''"
    by code_simp
  have w3: "?w3 = snd (createSubscription ext_demo 1 ?again ?w2)"
    by simp
  have "subscriptions (snd (createSubscription ext_demo 1 ?again ?w2)) =
          map (\<lambda>s. if s_id s = s_id ?old
                    then s\<lparr>s_isActive := True,
                      s_checkInterval :=
                        (case b_checkInterval ?again of None \<Rightarrow> 60 | Some i \<Rightarrow> i),
                      s_keywords :=
                        map trim (case b_keywords ?again of None \<Rightarrow> [] | Some ks \<Rightarrow> ks),
                      s_includeReplies :=
                        (case b_includeReplies ?again of None \<Rightarrow> False | Some b \<Rightarrow> b),
                      s_includeRetweets :=
                        (case b_includeRetweets ?again of None \<Rightarrow> False | Some b \<Rightarrow> b),
                      s_lastChecked := clock ?w2, s_updatedAt := Some (clock ?w2)\<rparr>
                    else s) (subscriptions ?w2)"
    using re by (rule conjunct2[THEN conjunct1])
  also have "\<dots> = [?old\<lparr>s_isActive := True, s_checkInterval := 60\<rparr>]"
    apply (simp only: subs2 clock2)
    apply (simp add: body_demo_def kw)
    done
  finally have subs3: "subscriptions ?w3 = [?old\<lparr>s_isActive := True, s_checkInterval := 60\<rparr>]"
    by (simp only: w3)
  have active2: "map s_isActive (subscriptions ?w2) = [False]"
    by (simp only: subs2) simp
  have static3: "map sub_static (subscriptions ?w3) = [(20, (1, ''acme''), 60)]"
    by (simp only: subs3) (simp add: sub_static_def sub_key_def)
  have active3: "map s_isActive (subscriptions ?w3) = [True]"
    by (simp only: subs3) simp
  have dist3: "distinct (map sub_key (subscriptions ?w3))"
    using subscription_invariants[OF r3] by (rule conjunct1)
  show ?thesis
    by (intro conjI one active2 ok static3 active3 dist3)
qed

text \<open>
  C8. Soft delete and reactivation. A delete request sets the active flag of the
  subscription it finds to false (with the update stamp) and nothing else: every row
  stays, with every other path as it was, and the posts and users are untouched. A create
  request for a pair whose subscription is inactive puts the record back in place with
  the active flag true and with \<open>checkInterval\<close>, \<open>keywords\<close>, \<open>includeReplies\<close>,
  \<open>includeRetweets\<close> from the request (or their defaults) and \<open>lastChecked\<close> at the
  current time; the rows around it are unchanged.
\<close>

theorem soft_delete_and_reactivation:
  "(deleteSubscription sid uid w = (resp, w') \<longrightarrow>
      subscriptions w' =
        update_first (\<lambda>s. s_id s = sid \<and> s_userId s = uid)
          (\<lambda>s. s\<lparr>s_isActive := False, s_updatedAt := Some (clock w)\<rparr>) (subscriptions w) \<and>
      map without_active (subscriptions w') = map without_active (subscriptions w) \<and>
      posts w' = posts w \<and> users w' = users w \<and>
      (status resp = 200 \<longrightarrow>
         (\<exists>s\<in>set (subscriptions w'). s_id s = sid \<and> s_userId s = uid \<and> \<not> s_isActive s))) \<and>
   (b_targetUsername body \<noteq> [] \<and>
    (\<forall>i. b_checkInterval body = Some i \<longrightarrow> 15 \<le> i \<and> i \<le> 1440) \<and>
    createForUser ext w uid \<noteq> None \<and>
    getUserByUsername ext (toLowerCase (trim (b_targetUsername body))) = Inr tu \<and>
    find (\<lambda>s. s_userId s = uid \<and> s_targetUsername s = toLowerCase (trim (b_targetUsername body)))
      (subscriptions w) = Some old \<and>
    \<not> s_isActive old \<and> distinct (map s_id (subscriptions w)) \<longrightarrow>
      (\<exists>pre post. subscriptions w = pre @ old # post \<and>
         createSubscription ext uid body w =
           (Response 200 (SubscriptionBody
              (old\<lparr>s_isActive := True,
                   s_checkInterval := (case b_checkInterval body of None \<Rightarrow> 60 | Some i \<Rightarrow> i),
                   s_keywords := map trim (case b_keywords body of None \<Rightarrow> [] | Some ks \<Rightarrow> ks),
                   s_includeReplies := (case b_includeReplies body of None \<Rightarrow> False | Some b \<Rightarrow> b),
                   s_includeRetweets := (case b_includeRetweets body of None \<Rightarrow> False | Some b \<Rightarrow> b),
                   s_lastChecked := clock w, s_updatedAt := Some (clock w)\<rparr>)),
            w\<lparr>subscriptions := pre @
                old\<lparr>s_isActive := True,
                   s_checkInterval := (case b_checkInterval body of None \<Rightarrow> 60 | Some i \<Rightarrow> i),
                   s_keywords := map trim (case b_keywords body of None \<Rightarrow> [] | Some ks \<Rightarrow> ks),
                   s_includeReplies := (case b_includeReplies body of None \<Rightarrow> False | Some b \<Rightarrow> b),
                   s_includeRetweets := (case b_includeRetweets body of None \<Rightarrow> False | Some b \<Rightarrow> b),
                   s_lastChecked := clock w, s_updatedAt := Some (clock w)\<rparr> # post\<rparr>)))"
proof -
  have del: "subscriptions w' =
        update_first (\<lambda>s. s_id s = sid \<and> s_userId s = uid)
          (\<lambda>s. s\<lparr>s_isActive := False, s_updatedAt := Some (clock w)\<rparr>) (subscriptions w) \<and>
      map without_active (subscriptions w') = map without_active (subscriptions w) \<and>
      posts w' = posts w \<and> users w' = users w \<and>
      (status resp = 200 \<longrightarrow>
         (\<exists>s\<in>set (subscriptions w'). s_id s = sid \<and> s_userId s = uid \<and> \<not> s_isActive s))"
    if run: "deleteSubscription sid uid w = (resp, w')"
  proof -
    from run have w': "w' = snd (deleteSubscription sid uid w)" by simp
    have subs: "subscriptions w' =
        update_first (\<lambda>s. s_id s = sid \<and> s_userId s = uid)
          (\<lambda>s. s\<lparr>s_isActive := False, s_updatedAt := Some (clock w)\<rparr>) (subscriptions w)"
      unfolding w' by (rule delete_subscriptions)
    have frame: "map without_active (subscriptions w') = map without_active (subscriptions w)"
      unfolding subs by (simp add: map_update_first without_active_def)
    have rest: "posts w' = posts w" "users w' = users w"
      unfolding w' by (simp_all add: delete_subscriptions)
    have off: "\<exists>s\<in>set (subscriptions w'). s_id s = sid \<and> s_userId s = uid \<and> \<not> s_isActive s"
      if "status resp = 200"
    proof -
      from delete_result[OF run that] obtain s where
        s: "find (\<lambda>s. s_id s = sid \<and> s_userId s = uid) (subscriptions w) = Some s"
        by blast
      then have "s_id s = sid \<and> s_userId s = uid" by (auto simp: find_Some_iff)
      moreover from s have
        "s\<lparr>s_isActive := False, s_updatedAt := Some (clock w)\<rparr> \<in> set (subscriptions w')"
        unfolding subs by (rule update_first_found)
      ultimately show ?thesis
        by (intro bexI[of _ "s\<lparr>s_isActive := False, s_updatedAt := Some (clock w)\<rparr>"]) simp_all
    qed
    from subs frame rest off show ?thesis by blast
  qed
  have react: "\<exists>pre post. subscriptions w = pre @ old # post \<and>
         createSubscription ext uid body w =
           (Response 200 (SubscriptionBody
              (old\<lparr>s_isActive := True,
                   s_checkInterval := (case b_checkInterval body of None \<Rightarrow> 60 | Some i \<Rightarrow> i),
                   s_keywords := map trim (case b_keywords body of None \<Rightarrow> [] | Some ks \<Rightarrow> ks),
                   s_includeReplies := (case b_includeReplies body of None \<Rightarrow> False | Some b \<Rightarrow> b),
                   s_includeRetweets := (case b_includeRetweets body of None \<Rightarrow> False | Some b \<Rightarrow> b),
                   s_lastChecked := clock w, s_updatedAt := Some (clock w)\<rparr>)),
            w\<lparr>subscriptions := pre @
                old\<lparr>s_isActive := True,
                   s_checkInterval := (case b_checkInterval body of None \<Rightarrow> 60 | Some i \<Rightarrow> i),
                   s_keywords := map trim (case b_keywords body of None \<Rightarrow> [] | Some ks \<Rightarrow> ks),
                   s_includeReplies := (case b_includeReplies body of None \<Rightarrow> False | Some b \<Rightarrow> b),
                   s_includeRetweets := (case b_includeRetweets body of None \<Rightarrow> False | Some b \<Rightarrow> b),
                   s_lastChecked := clock w, s_updatedAt := Some (clock w)\<rparr> # post\<rparr>)"
    if h: "b_targetUsername body \<noteq> []"
      "\<forall>i. b_checkInterval body = Some i \<longrightarrow> 15 \<le> i \<and> i \<le> 1440"
      "createForUser ext w uid \<noteq> None"
      "getUserByUsername ext (toLowerCase (trim (b_targetUsername body))) = Inr tu"
      "find (\<lambda>s. s_userId s = uid \<and> s_targetUsername s = toLowerCase (trim (b_targetUsername body)))
         (subscriptions w) = Some old"
      "\<not> s_isActive old" "distinct (map s_id (subscriptions w))"
  proof -
    from find_split_distinct[OF h(5) h(7)] obtain pre post where
      xs: "subscriptions w = pre @ old # post" and pre: "\<forall>y\<in>set pre. s_id y \<noteq> s_id old"
      by blast
    have "update_first (\<lambda>r. s_id r = s_id old) f (subscriptions w) = pre @ f old # post" for f
      unfolding xs using pre by (intro update_first_split) simp_all
    with reactivate_run[OF h(1-6)] xs show ?thesis
      by (intro exI[of _ pre] exI[of _ post]) simp
  qed
  show ?thesis
    apply (rule conjI)
     apply (rule impI)
     apply (erule del)
    apply (rule impI)
    apply (elim conjE)
    apply (erule (6) react)
    done
qed

theorem soft_delete_and_reactivation_witness:
  "subscriptions (snd (deleteSubscription 10 1 (w_demo [sub_demo 10 ''acme'']))) =
     [(sub_demo 10 ''acme'')\<lparr>s_isActive := False, s_updatedAt := Some 5000000\<rparr>] \<and>
   createSubscription ext_demo 1 body_demo w_inactive =
     (Response 200 (SubscriptionBody
        ((sub_demo 10 ''acme'')\<lparr>s_checkInterval := 30, s_keywords := [''launch''],
           s_includeReplies := True, s_lastChecked := 5000000, s_updatedAt := Some 5000000\<rparr>)),
      w_demo [(sub_demo 10 ''acme'')\<lparr>s_checkInterval := 30, s_keywords := [''launch''],
           s_includeReplies := True, s_lastChecked := 5000000, s_updatedAt := Some 5000000\<rparr>])"
proof -
  let ?sub = "sub_demo 10 ''acme''"
  let ?old = "?sub\<lparr>s_isActive := False\<rparr>"
  let ?del = "deleteSubscription 10 1 (w_demo [?sub])"
  have "?del = (fst ?del, snd ?del)" by simp
  from mp[OF soft_delete_and_reactivation[THEN conjunct1] this]
  have "subscriptions (snd ?del) =
        update_first (\<lambda>s. s_id s = 10 \<and> s_userId s = 1)
          (\<lambda>s. s\<lparr>s_isActive := False, s_updatedAt := Some (clock (w_demo [?sub]))\<rparr>)
          (subscriptions (w_demo [?sub]))"
    by (rule conjunct1)
  then have first: "subscriptions (snd ?del) =
      [?sub\<lparr>s_isActive := False, s_updatedAt := Some 5000000\<rparr>]"
    by (simp add: w_demo_def sub_demo_def)
  have target: "toLowerCase (trim (b_targetUsername body_demo)) = ''acme''"
    by code_simp
  have kw: "trim ''launch '' = ''launch''"
    by code_simp
  have h1: "b_targetUsername body_demo \<noteq> []"
    by (simp add: body_demo_def)
  have h2: "\<forall>i. b_checkInterval body_demo = Some i \<longrightarrow> 15 \<le> i \<and> i \<le> 1440"
    by (simp add: body_demo_def)
  have h3: "createForUser ext_demo w_inactive 1 \<noteq> None"
    by (simp add: createForUser_def decryptCredentials_def new_TwitterService_def
        w_inactive_def w_demo_def user_demo_def ext_demo_def)
  have h4: "getUserByUsername ext_demo (toLowerCase (trim (b_targetUsername body_demo))) =
              Inr (Some (account ''42'' ''acme''))"
    by (simp add: target getUserByUsername_def ext_demo_def)
  have h5: "find (\<lambda>s. s_userId s = 1 \<and>
                       s_targetUsername s = toLowerCase (trim (b_targetUsername body_demo)))
              (subscriptions w_inactive) = Some ?old"
    by (simp add: target w_inactive_def w_demo_def sub_demo_def)
  have h6: "\<not> s_isActive ?old" by simp
  have h7: "distinct (map s_id (subscriptions w_inactive))"
    by (simp add: w_inactive_def w_demo_def)
  from mp[OF soft_delete_and_reactivation[THEN conjunct2], of body_demo ext_demo w_inactive 1
      "Some (account ''42'' ''acme'')" ?old] h1 h2 h3 h4 h5 h6 h7
  obtain pre post where
    xs: "subscriptions w_inactive = pre @ ?old # post"
    and run: "createSubscription ext_demo 1 body_demo w_inactive =
           (Response 200 (SubscriptionBody
              (?old\<lparr>s_isActive := True,
                   s_checkInterval := (case b_checkInterval body_demo of None \<Rightarrow> 60 | Some i \<Rightarrow> i),
                   s_keywords := map trim (case b_keywords body_demo of None \<Rightarrow> [] | Some ks \<Rightarrow> ks),
                   s_includeReplies := (case b_includeReplies body_demo of None \<Rightarrow> False | Some b \<Rightarrow> b),
                   s_includeRetweets := (case b_includeRetweets body_demo of None \<Rightarrow> False | Some b \<Rightarrow> b),
                   s_lastChecked := clock w_inactive, s_updatedAt := Some (clock w_inactive)\<rparr>)),
            w_inactive\<lparr>subscriptions := pre @
                ?old\<lparr>s_isActive := True,
                   s_checkInterval := (case b_checkInterval body_demo of None \<Rightarrow> 60 | Some i \<Rightarrow> i),
                   s_keywords := map trim (case b_keywords body_demo of None \<Rightarrow> [] | Some ks \<Rightarrow> ks),
                   s_includeReplies := (case b_includeReplies body_demo of None \<Rightarrow> False | Some b \<Rightarrow> b),
                   s_includeRetweets := (case b_includeRetweets body_demo of None \<Rightarrow> False | Some b \<Rightarrow> b),
                   s_lastChecked := clock w_inactive, s_updatedAt := Some (clock w_inactive)\<rparr> # post\<rparr>)"
    by blast
  have "subscriptions w_inactive = [?old]"
    by (simp add: w_inactive_def w_demo_def)
  with xs have "pre = [] \<and> post = []"
    by (simp add: Cons_eq_append_conv)
  with run have second: "createSubscription ext_demo 1 body_demo w_inactive =
     (Response 200 (SubscriptionBody
        (?sub\<lparr>s_checkInterval := 30, s_keywords := [''launch''],
           s_includeReplies := True, s_lastChecked := 5000000, s_updatedAt := Some 5000000\<rparr>)),
      w_demo [?sub\<lparr>s_checkInterval := 30, s_keywords := [''launch''],
           s_includeReplies := True, s_lastChecked := 5000000, s_updatedAt := Some 5000000\<rparr>])"
    by (simp add: body_demo_def kw w_inactive_def w_demo_def sub_demo_def)
  from first second show ?thesis by (rule conjI)
qed

text \<open>
  C9. Every row a run of \<open>processSubscriptionTweets\<close> adds to the Post collection
  (the rows that were not there before and are not another writer's) has
  \<open>authorUsername\<close> equal to the subscription's \<open>targetUsername\<close>, lower-cased and
  trimmed by the schema (which is \<open>targetUsername\<close> itself when that is normalised
  already), and the subscription's \<open>_id\<close> and \<open>userId\<close>; the author identifier of
  the remote post plays no part in the row.
\<close>

theorem stored_posts_carry_subscription:
  assumes run: "processSubscriptionTweets ext sub w = (r, w')"
  shows "(\<forall>p\<in>set (posts w').
            p \<in> set (posts w) \<or> p \<in> set (concat (concurrent w)) \<or>
            (p_authorUsername p = trim (toLowerCase (s_targetUsername sub)) \<and>
             p_subscriptionId p = s_id sub \<and> p_userId p = s_userId sub)) \<and>
         (s_targetUsername sub = trim (toLowerCase raw) \<longrightarrow>
            trim (toLowerCase (s_targetUsername sub)) = s_targetUsername sub) \<and>
         new_Post sub tu (t\<lparr>t_author_id := a\<rparr>) = new_Post sub tu t"
proof -
  have rows: "\<forall>p\<in>set (posts w').
            p \<in> set (posts w) \<or> p \<in> set (concat (concurrent w)) \<or>
            (p_authorUsername p = trim (toLowerCase (s_targetUsername sub)) \<and>
             p_subscriptionId p = s_id sub \<and> p_userId p = s_userId sub)"
  proof
    fix p assume "p \<in> set (posts w')"
    with process_rows_origin[OF run] consider
        "p \<in> set (posts w)" | "p \<in> set (concat (concurrent w))"
      | tu' t' where "p = stamp (clock w) (new_Post sub tu' t')"
      by blast
    then show "p \<in> set (posts w) \<or> p \<in> set (concat (concurrent w)) \<or>
            (p_authorUsername p = trim (toLowerCase (s_targetUsername sub)) \<and>
             p_subscriptionId p = s_id sub \<and> p_userId p = s_userId sub)"
    proof cases
      case 1
      then show ?thesis by simp
    next
      case 2
      then show ?thesis by simp
    next
      case 3
      then show ?thesis by (simp only: new_Post_fields) simp
    qed
  qed
  have norm: "s_targetUsername sub = trim (toLowerCase raw) \<longrightarrow>
            trim (toLowerCase (s_targetUsername sub)) = s_targetUsername sub"
    using normalise_idem'[of raw] by simp
  have author: "new_Post sub tu (t\<lparr>t_author_id := a\<rparr>) = new_Post sub tu t"
    by (simp add: new_Post_def extractMediaUrls_def Let_def)
  show ?thesis
    apply (rule conjI[OF rows])
    apply (rule conjI[OF norm])
    apply (rule author)
    done
qed

theorem stored_posts_carry_subscription_witness:
  "map p_authorUsername (posts (snd (processSubscriptionTweets ext_demo (sub_demo 10 ''acme'')
                                        (w_demo [sub_demo 10 ''acme''])))) = [''acme'', ''acme''] \<and>
   t_author_id tweet_reply = ''77'' \<and>
   map p_subscriptionId (posts (snd (processSubscriptionTweets ext_demo (sub_demo 10 ''acme'')
                                        (w_demo [sub_demo 10 ''acme''])))) = [10, 10]"
proof -
  let ?sub = "sub_demo 10 ''acme''"
  let ?run = "processSubscriptionTweets ext_demo ?sub (w_demo [?sub])"
  have run: "?run = (fst ?run, snd ?run)" by simp
  note inst = stored_posts_carry_subscription[OF run, THEN conjunct1]
  have old: "posts (w_demo [?sub]) = []" "concurrent (w_demo [?sub]) = []"
    by (simp_all add: w_demo_def)
  have target: "trim (toLowerCase (s_targetUsername ?sub)) = ''acme''" "s_id ?sub = 10"
    by (simp_all add: sub_demo_def toLowerCase_def trim_def char_toLowerCase_def isWhiteSpace_def)
  from inst have all: "\<forall>p\<in>set (posts (snd ?run)). p_authorUsername p = ''acme'' \<and> p_subscriptionId p = 10"
    by (simp add: old target)
  have len: "length (posts (snd ?run)) = 2" by (simp add: acme_run)
  from all have "map p_authorUsername (posts (snd ?run)) = replicate (length (posts (snd ?run))) ''acme''"
    by (simp add: map_replicate_const[symmetric] cong: map_cong)
  moreover from all have "map p_subscriptionId (posts (snd ?run)) = replicate (length (posts (snd ?run))) 10"
    by (simp add: map_replicate_const[symmetric] cong: map_cong)
  moreover have "t_author_id tweet_reply = ''77''" by (simp add: tweet_reply_def)
  ultimately show ?thesis by (simp add: len numeral_2_eq_2)
qed

text \<open>
  C10. The JSON serialization of a user never has a \<open>password\<close> or a
  \<open>twitterCredentials\<close> key, whatever is stored in them, and two users that
  differ only in the password or the credentials have the same public JSON.
\<close>

theorem User_toJSON_hides_secrets:
  "map_of (User_toJSON u) ''password'' = None \<and>
   map_of (User_toJSON u) ''twitterCredentials'' = None \<and>
   ''password'' \<notin> fst ` set (User_toJSON u) \<and>
   ''twitterCredentials'' \<notin> fst ` set (User_toJSON u) \<and>
   User_toJSON (u\<lparr>u_password := p, u_twitterCredentials := c\<rparr>) = User_toJSON u"
proof -
  have keys: "''password'' \<notin> fst ` set (User_toJSON u)"
    "''twitterCredentials'' \<notin> fst ` set (User_toJSON u)"
    by (auto simp: User_toJSON_def User_transform_def delete_key_def)
  have same: "User_toJSON (u\<lparr>u_password := p, u_twitterCredentials := c\<rparr>) = User_toJSON u"
    by (simp add: User_toJSON_def User_transform_def User_toObject_def delete_key_def
        split: option.splits)
  from keys same show ?thesis
    by (simp add: map_of_eq_None_iff)
qed

end
